theory Spec2Isabelle
  imports Main "HOL-Library.Word"
begin

unbundle bit_operations_syntax

section \<open>JavaScript strings and values\<close>

text \<open>
  A JavaScript string is a sequence of UTF-16 code units: \<open>slice\<close>, \<open>indexOf\<close>,
  \<open>substr\<close>, \<open>trim\<close> and \<open>replace\<close> all count and compare code units. \<open>js\<close> writes
  an ASCII literal of the source as such a string.
\<close>

type_synonym code_unit = "16 word"
type_synonym jsstring = "code_unit list"

definition js :: "string \<Rightarrow> jsstring" where
  "js s = map (\<lambda>c. of_nat (of_char c)) s"

text \<open>
  The values that commands, the key/value store and parsed payloads are made of.

  \<^item> \<open>JNum\<close> is a number, given by the text that JavaScript prints for it
    (\<open>Number.prototype.toString\<close>, for instance \<open>1\<close>, \<open>-0.5\<close>, \<open>1e+21\<close>, \<open>NaN\<close>). The
    module computes with no number of a command: it serialises them and tests them for
    truth, and both are read off the text.
  \<^item> \<open>JObj\<close> and \<open>JArr\<close> are an object and an array that nothing else refers to: a
    literal written at the call, or what \<open>JSON.parse\<close> returns. \<open>JObj\<close> lists the own
    properties in the order JavaScript enumerates them. Two occurrences of one \<open>JObj\<close>
    are two objects with the same contents; one object that is passed or stored twice is
    a \<open>JRef\<close>.
  \<^item> \<open>JRef\<close> is a reference to an object or an array of the heap: the caller, other
    objects and the queue of the connection may hold the same reference, and an
    assignment to a property is seen through all of them.
\<close>

type_synonym address = nat

datatype jsval =
    JUndefined
  | JNull
  | JBool bool
  | JNum jsstring
  | JStr jsstring
  | JArr "jsval list"
  | JObj "(jsstring \<times> jsval) list"
  | JRef address

text \<open>
  The heap: the objects and arrays behind the references. The first entry of an address
  is the one that is read, and an assignment puts a new entry in front.
\<close>

datatype stored =
    StoredObject "(jsstring \<times> jsval) list"
  | StoredArray "jsval list"

type_synonym heap = "(address \<times> stored) list"

text \<open>
  ToBoolean, as used by \<open>if (data.batch)\<close> and \<open>if (this.get("destroyed"))\<close>: among the
  numbers, zero (either sign prints \<open>0\<close>) and \<open>NaN\<close> are false.
\<close>

fun truthy :: "jsval \<Rightarrow> bool" where
  "truthy JUndefined = False"
| "truthy JNull = False"
| "truthy (JBool b) = b"
| "truthy (JNum t) = (t \<noteq> js ''0'' \<and> t \<noteq> js ''NaN'')"
| "truthy (JStr s) = (s \<noteq> [])"
| "truthy (JArr xs) = True"
| "truthy (JObj kvs) = True"
| "truthy (JRef r) = True"

section \<open>The packet counter: a JavaScript number with an integer value\<close>

text \<open>
  The packet counter is a double-precision number. It starts at 0 and is only ever
  added to, so its value is an integer, and the model holds that integer. A double has
  53 significant bits: the integers below \<open>2 ^ 53\<close> in magnitude are all numbers, from
  there to \<open>2 ^ 54\<close> every second integer is, and so on. \<open>spacing n\<close> is the distance
  between neighbouring numbers at the magnitude \<open>n\<close>.
\<close>

fun spacing :: "nat \<Rightarrow> nat" where
  "spacing n = (if n < 2 ^ 53 then 1 else 2 * spacing (n div 2))"

declare spacing.simps [simp del]

text \<open>
  The multiple of \<open>q\<close> nearest to \<open>x\<close>, and of two that are equally near the even
  multiple: the rounding of IEEE 754 arithmetic.
\<close>

definition round_half_even :: "int \<Rightarrow> int \<Rightarrow> int" where
  "round_half_even q x =
     (let lower = x div q * q; r = x mod q
      in if 2 * r < q then lower
         else if q < 2 * r then lower + q
         else if even (x div q) then lower
         else lower + q)"

text \<open>
  The number nearest to an integer (the numbers of this module stay far below the
  largest double, where rounding gives \<open>Infinity\<close>).
\<close>

definition round53 :: "int \<Rightarrow> int" where
  "round53 x = round_half_even (int (spacing (nat \<bar>x\<bar>))) x"

text \<open>
  \<open>a + b\<close> on a number \<open>a\<close> and a small integer \<open>b\<close>, as in
  \<open>this.packetCounter + i\<close> and \<open>++this.packetCounter\<close>: the exact sum, rounded. An
  integer \<open>a\<close> with \<open>round53 a \<noteq> a\<close> is no number and is the counter of no connection (the
  constructor sets the counter to 0, and a sum is a number again: lemmas
  \<open>js_add_number\<close> and \<open>number_from_new_Client\<close> below); for it the model takes the exact
  sum.
\<close>

definition js_add :: "int \<Rightarrow> int \<Rightarrow> int" where
  "js_add a b = (if round53 a = a then round53 (a + b) else a + b)"

text \<open>The decimal digits of a natural number.\<close>

fun decimal :: "nat \<Rightarrow> jsstring" where
  "decimal n = (if n < 10 then [of_nat (48 + n)] else decimal (n div 10) @ [of_nat (48 + n mod 10)])"

declare decimal.simps [simp del]

fun digit_count :: "nat \<Rightarrow> nat" where
  "digit_count n = (if n < 10 then 1 else 1 + digit_count (n div 10))"

declare digit_count.simps [simp del]

text \<open>
  \<open>Number.prototype.toString()\<close> on a number with an integer value. JavaScript prints
  the fewest significant digits that read back as the same number, followed by zeros:
  \<open>2 ^ 60 = 1152921504606846976\<close> prints as \<open>1152921504606847000\<close>. \<open>shortest x\<close> is that
  integer for a number \<open>x > 0\<close>: going down from the number of digits of \<open>x\<close>, the first
  power of ten that has a multiple which rounds to \<open>x\<close>; the candidates are the multiple
  below \<open>x\<close> and the one above, and of two that round to \<open>x\<close> the nearer one is taken.
  With more than 21 digits the number is printed with an exponent.
\<close>

fun shortest_from :: "nat \<Rightarrow> int \<Rightarrow> int" where
  "shortest_from 0 x = x"
| "shortest_from (Suc e) x =
     (let lo = x div 10 ^ Suc e * 10 ^ Suc e;
          hi = lo + 10 ^ Suc e;
          lo_reads_back = (0 < lo \<and> round53 lo = x);
          hi_reads_back = (round53 hi = x)
      in if lo_reads_back \<and> hi_reads_back then (if x - lo < hi - x then lo else hi)
         else if lo_reads_back then lo
         else if hi_reads_back then hi
         else shortest_from e x)"

definition shortest :: "int \<Rightarrow> int" where
  "shortest x = shortest_from (digit_count (nat x)) x"

definition exponential :: "nat \<Rightarrow> jsstring" where
  "exponential c =
     (let s = rev (dropWhile (\<lambda>d. d = 48) (rev (decimal c)))
      in (if tl s = [] then s else hd s # js ''.'' @ tl s) @ js ''e+'' @ decimal (digit_count c - 1))"

definition toString :: "int \<Rightarrow> jsstring" where
  "toString x =
     (let c = nat (shortest \<bar>x\<bar>)
      in (if x < 0 then js ''-'' else []) @
         (if digit_count c \<le> 21 then decimal c else exponential c))"

section \<open>The digest: \<open>crypto.createHash('sha1')\<close> over the UTF-8 bytes\<close>

text \<open>
  \<open>Buffer.from(s, 'utf8')\<close>: the UTF-8 encoding of a string of UTF-16 code units. A
  surrogate pair is one code point of four bytes; a surrogate on its own is encoded as
  U+FFFD (EF BF BD).
\<close>

definition is_high_surrogate :: "code_unit \<Rightarrow> bool" where
  "is_high_surrogate c = (0xD800 \<le> unat c \<and> unat c \<le> 0xDBFF)"

definition is_low_surrogate :: "code_unit \<Rightarrow> bool" where
  "is_low_surrogate c = (0xDC00 \<le> unat c \<and> unat c \<le> 0xDFFF)"

definition utf8_code_point :: "nat \<Rightarrow> nat list" where
  "utf8_code_point u =
     (if u < 0x80 then [u]
      else if u < 0x800 then [0xC0 + u div 64, 0x80 + u mod 64]
      else if u < 0x10000 then [0xE0 + u div 4096, 0x80 + (u div 64) mod 64, 0x80 + u mod 64]
      else [0xF0 + u div 262144, 0x80 + (u div 4096) mod 64, 0x80 + (u div 64) mod 64,
            0x80 + u mod 64])"

fun utf8 :: "jsstring \<Rightarrow> nat list" where
  "utf8 [] = []"
| "utf8 [c] =
     (if is_high_surrogate c \<or> is_low_surrogate c then [0xEF, 0xBF, 0xBD]
      else utf8_code_point (unat c))"
| "utf8 (c # d # cs) =
     (if is_high_surrogate c \<and> is_low_surrogate d
      then utf8_code_point (0x10000 + (unat c - 0xD800) * 1024 + (unat d - 0xDC00)) @ utf8 cs
      else if is_high_surrogate c \<or> is_low_surrogate c then [0xEF, 0xBF, 0xBD] @ utf8 (d # cs)
      else utf8_code_point (unat c) @ utf8 (d # cs))"

text \<open>
  SHA-1 (FIPS 180-4) on bytes. The 32-bit words are naturals below \<open>2 ^ 32\<close> with the
  wrap-around written out, so that a digest of a concrete message is computed by
  rewriting.
\<close>

type_synonym u32 = nat

definition add32 :: "u32 \<Rightarrow> u32 \<Rightarrow> u32" where
  "add32 a b = (a + b) mod 2 ^ 32"

definition not32 :: "u32 \<Rightarrow> u32" where
  "not32 a = 4294967295 - a mod 2 ^ 32"

definition rotl :: "nat \<Rightarrow> u32 \<Rightarrow> u32" where
  "rotl n w = (w * 2 ^ n) mod 2 ^ 32 + (w mod 2 ^ 32) div 2 ^ (32 - n)"

definition sha1_pad :: "nat list \<Rightarrow> nat list" where
  "sha1_pad m =
     m @ [0x80] @ replicate ((119 - length m mod 64) mod 64) 0 @
     map (\<lambda>i. ((8 * length m) div 256 ^ (7 - i)) mod 256) [0, 1, 2, 3, 4, 5, 6, 7]"

fun be_words :: "nat list \<Rightarrow> u32 list" where
  "be_words (a # b # c # d # rest) = (a * 16777216 + b * 65536 + c * 256 + d) # be_words rest"
| "be_words _ = []"

definition sha1_f :: "nat \<Rightarrow> u32 \<Rightarrow> u32 \<Rightarrow> u32 \<Rightarrow> u32" where
  "sha1_f t b c d =
     (if t < 20 then (b AND c) OR (not32 b AND d)
      else if t < 40 then b XOR c XOR d
      else if t < 60 then (b AND c) OR (b AND d) OR (c AND d)
      else b XOR c XOR d)"

definition sha1_k :: "nat \<Rightarrow> u32" where
  "sha1_k t =
     (if t < 20 then 0x5A827999
      else if t < 40 then 0x6ED9EBA1
      else if t < 60 then 0x8F1BBCDC
      else 0xCA62C1D6)"

type_synonym sha1_state = "u32 \<times> u32 \<times> u32 \<times> u32 \<times> u32"

text \<open>
  The message schedule, newest word first: \<open>W\<^sub>t = ROTL\<^sup>1 (W\<^sub>t\<^sub>-\<^sub>3 XOR W\<^sub>t\<^sub>-\<^sub>8 XOR W\<^sub>t\<^sub>-\<^sub>1\<^sub>4 XOR W\<^sub>t\<^sub>-\<^sub>1\<^sub>6)\<close>.
\<close>

fun schedule :: "nat \<Rightarrow> u32 list \<Rightarrow> u32 list" where
  "schedule 0 w = w"
| "schedule (Suc n) w = schedule n (rotl 1 (w ! 2 XOR w ! 7 XOR w ! 13 XOR w ! 15) # w)"

fun rounds :: "nat \<Rightarrow> u32 list \<Rightarrow> sha1_state \<Rightarrow> sha1_state" where
  "rounds t [] s = s"
| "rounds t (w # ws) (a, b, c, d, e) =
     rounds (t + 1) ws
       (add32 (add32 (add32 (add32 (rotl 5 a) (sha1_f t b c d)) e) (sha1_k t)) w,
        a, rotl 30 b, c, d)"

definition compress :: "sha1_state \<Rightarrow> u32 list \<Rightarrow> sha1_state" where
  "compress h blk =
     (case (h, rounds 0 (rev (schedule 64 (rev blk))) h) of
        ((h0, h1, h2, h3, h4), (a, b, c, d, e)) \<Rightarrow>
          (add32 h0 a, add32 h1 b, add32 h2 c, add32 h3 d, add32 h4 e))"

fun blocks :: "nat \<Rightarrow> sha1_state \<Rightarrow> u32 list \<Rightarrow> sha1_state" where
  "blocks 0 h ws = h"
| "blocks (Suc n) h ws = blocks n (compress h (take 16 ws)) (drop 16 ws)"

definition sha1 :: "nat list \<Rightarrow> sha1_state" where
  "sha1 m =
     blocks (length (sha1_pad m) div 64)
       (0x67452301, 0xEFCDAB89, 0x98BADCFE, 0x10325476, 0xC3D2E1F0)
       (be_words (sha1_pad m))"

text \<open>\<open>digest('hex')\<close>: eight lowercase hexadecimal digits for each of the five words.\<close>

definition hex_digit :: "nat \<Rightarrow> code_unit" where
  "hex_digit n = (if n mod 16 < 10 then of_nat (48 + n mod 16) else of_nat (87 + n mod 16))"

definition hex32 :: "u32 \<Rightarrow> jsstring" where
  "hex32 w = map (\<lambda>i. hex_digit (w div 16 ^ (7 - i))) [0, 1, 2, 3, 4, 5, 6, 7]"

definition sha1_hex :: "nat list \<Rightarrow> jsstring" where
  "sha1_hex m = (case sha1 m of (a, b, c, d, e) \<Rightarrow> hex32 a @ hex32 b @ hex32 c @ hex32 d @ hex32 e)"

section \<open>\<open>JSON.stringify\<close>\<close>

text \<open>
  QuoteJSONString: the two-character escapes, \<open>\u00xx\<close> for the other control
  characters and for a surrogate that is not part of a pair, every other code unit as it
  is. A backslash is the code unit \<open>0x5C\<close>.
\<close>

definition hex4 :: "nat \<Rightarrow> jsstring" where
  "hex4 n = map (\<lambda>i. hex_digit (n div 16 ^ (3 - i))) [0, 1, 2, 3]"

definition unicode_escape :: "code_unit \<Rightarrow> jsstring" where
  "unicode_escape c = [0x5C, 0x75] @ hex4 (unat c)"

definition quote_unit :: "code_unit \<Rightarrow> jsstring" where
  "quote_unit c =
     (if c = 0x08 then [0x5C, 0x62]
      else if c = 0x09 then [0x5C, 0x74]
      else if c = 0x0A then [0x5C, 0x6E]
      else if c = 0x0C then [0x5C, 0x66]
      else if c = 0x0D then [0x5C, 0x72]
      else if c = 0x22 then [0x5C, 0x22]
      else if c = 0x5C then [0x5C, 0x5C]
      else if unat c < 0x20 \<or> is_high_surrogate c \<or> is_low_surrogate c then unicode_escape c
      else [c])"

fun quote_units :: "jsstring \<Rightarrow> jsstring" where
  "quote_units [] = []"
| "quote_units [c] = quote_unit c"
| "quote_units (c # d # cs) =
     (if is_high_surrogate c \<and> is_low_surrogate d then c # d # quote_units cs
      else quote_unit c @ quote_units (d # cs))"

definition quote :: "jsstring \<Rightarrow> jsstring" where
  "quote s = [0x22] @ quote_units s @ [0x22]"

fun join :: "jsstring list \<Rightarrow> jsstring" where
  "join [] = []"
| "join [x] = x"
| "join (x # y # ys) = x @ js '','' @ join (y # ys)"

text \<open>
  What a call can throw: the \<open>ReferenceError\<close> of an unbound identifier, a
  \<open>TypeError\<close> (a property of \<open>undefined\<close> or \<open>null\<close>, a property assigned on a
  primitive in strict mode, a call of something that is no function, a circular
  structure given to \<open>JSON.stringify\<close>), and the two \<open>Error\<close>s the module raises itself.
\<close>

datatype error =
    ReferenceError
  | TypeError
  | EnvRequired jsstring
  | NotInTickMode

text \<open>A number in JSON: \<open>NaN\<close> and the infinities are written \<open>null\<close>.\<close>

definition number_text :: "jsstring \<Rightarrow> jsstring" where
  "number_text t =
     (if t = js ''NaN'' \<or> t = js ''Infinity'' \<or> t = js ''-Infinity'' then js ''null'' else t)"

text \<open>
  SerializeJSONProperty. The result is \<open>undefined\<close> (here \<open>None\<close>) for \<open>undefined\<close>;
  inside an array \<open>undefined\<close> is written \<open>null\<close>, inside an object the property is
  left out. \<open>stack\<close> holds the references that are being serialised: meeting one of them
  again is a circular structure, a \<open>TypeError\<close>; an object that is merely referred to
  twice is written twice. (An address without an entry in the heap does not occur; the
  model throws wherever one is read.)
\<close>

function serialize :: "heap \<Rightarrow> address list \<Rightarrow> jsval \<Rightarrow> error + jsstring option"
  and stringify_elements :: "heap \<Rightarrow> address list \<Rightarrow> jsval list \<Rightarrow> error + jsstring list"
  and stringify_properties ::
    "heap \<Rightarrow> address list \<Rightarrow> (jsstring \<times> jsval) list \<Rightarrow> error + jsstring list" where
  "serialize h stack JUndefined = Inr None"
| "serialize h stack JNull = Inr (Some (js ''null''))"
| "serialize h stack (JBool b) = Inr (Some (if b then js ''true'' else js ''false''))"
| "serialize h stack (JNum t) = Inr (Some (number_text t))"
| "serialize h stack (JStr s) = Inr (Some (quote s))"
| "serialize h stack (JArr xs) =
     (case stringify_elements h stack xs of
        Inl err \<Rightarrow> Inl err
      | Inr ts \<Rightarrow> Inr (Some (js ''['' @ join ts @ js '']'')))"
| "serialize h stack (JObj kvs) =
     (case stringify_properties h stack kvs of
        Inl err \<Rightarrow> Inl err
      | Inr ts \<Rightarrow> Inr (Some (js ''{'' @ join ts @ js ''}'')))"
| "serialize h stack (JRef r) =
     (if r \<in> set stack then Inl TypeError
      else
        (case map_of h r of
           None \<Rightarrow> Inl TypeError
         | Some (StoredArray xs) \<Rightarrow> serialize h (r # stack) (JArr xs)
         | Some (StoredObject kvs) \<Rightarrow> serialize h (r # stack) (JObj kvs)))"
| "stringify_elements h stack [] = Inr []"
| "stringify_elements h stack (x # xs) =
     (case serialize h stack x of
        Inl err \<Rightarrow> Inl err
      | Inr t \<Rightarrow>
          (case stringify_elements h stack xs of
             Inl err \<Rightarrow> Inl err
           | Inr ts \<Rightarrow> Inr ((case t of None \<Rightarrow> js ''null'' | Some s \<Rightarrow> s) # ts)))"
| "stringify_properties h stack [] = Inr []"
| "stringify_properties h stack ((k, v) # kvs) =
     (case serialize h stack v of
        Inl err \<Rightarrow> Inl err
      | Inr t \<Rightarrow>
          (case stringify_properties h stack kvs of
             Inl err \<Rightarrow> Inl err
           | Inr ts \<Rightarrow> Inr (case t of None \<Rightarrow> ts | Some s \<Rightarrow> (quote k @ js '':'' @ s) # ts)))"
  by pat_completeness auto
termination
proof (relation "inv_image (less_than <*lex*> less_than)
    (\<lambda>x. case x of
       Inl (h, stack, v) \<Rightarrow> (card (fst ` set h - set stack), size v)
     | Inr (Inl (h, stack, xs)) \<Rightarrow> (card (fst ` set h - set stack), size_list size xs)
     | Inr (Inr (h, stack, kvs)) \<Rightarrow>
         (card (fst ` set h - set stack), size_list (size_prod (\<lambda>k. 0) size) kvs))",
    goal_cases)
  case 1
  show ?case by (intro wf_inv_image wf_lex_prod wf_less_than)
next
  case (4 h stack r x xs)
  then have "r \<in> fst ` set h" by (metis map_of_eq_None_iff option.distinct(1))
  with 4 have "card (fst ` set h - set (r # stack)) < card (fst ` set h - set stack)"
    by (intro psubset_card_mono) auto
  then show ?case by simp
next
  case (5 h stack r x kvs)
  then have "r \<in> fst ` set h" by (metis map_of_eq_None_iff option.distinct(1))
  with 5 have "card (fst ` set h - set (r # stack)) < card (fst ` set h - set stack)"
    by (intro psubset_card_mono) auto
  then show ?case by simp
qed simp_all

text \<open>\<open>JSON.stringify(value)\<close>, with the heap as it is at the call.\<close>

definition JSON_stringify :: "heap \<Rightarrow> jsval \<Rightarrow> error + jsstring option" where
  "JSON_stringify h v = serialize h [] v"

section \<open>String methods used by the module\<close>

text \<open>
  \<open>s.replace(pattern, replacement)\<close> with a string pattern: only the first occurrence
  is replaced. (The module's replacement is the empty string, so the \<open>$\<close> patterns of
  a replacement string play no part.)
\<close>

fun replace :: "jsstring \<Rightarrow> jsstring \<Rightarrow> jsstring \<Rightarrow> jsstring" where
  "replace [] pat rep = (if pat = [] then rep else [])"
| "replace (c # cs) pat rep =
     (if take (length pat) (c # cs) = pat then rep @ drop (length pat) (c # cs)
      else c # replace cs pat rep)"

text \<open>\<open>s.indexOf(c)\<close> for a one-character search string: the first index, or \<open>-1\<close>.\<close>

fun indexOf :: "jsstring \<Rightarrow> code_unit \<Rightarrow> int" where
  "indexOf [] c = - 1"
| "indexOf (x # xs) c = (if x = c then 0 else if indexOf xs c < 0 then - 1 else indexOf xs c + 1)"

text \<open>\<open>s.substr(start, length)\<close> and \<open>s.slice(start, end)\<close>; a negative index counts from the end.\<close>

definition substr :: "jsstring \<Rightarrow> int \<Rightarrow> int \<Rightarrow> jsstring" where
  "substr s start len =
     (let from = (if start < 0 then max (int (length s) + start) 0 else min start (int (length s)))
      in take (nat len) (drop (nat from) s))"

definition slice_index :: "jsstring \<Rightarrow> int \<Rightarrow> nat" where
  "slice_index s i = nat (if i < 0 then max (int (length s) + i) 0 else min i (int (length s)))"

definition slice :: "jsstring \<Rightarrow> int \<Rightarrow> int option \<Rightarrow> jsstring" where
  "slice s start stop =
     (let from = slice_index s start;
          to = (case stop of None \<Rightarrow> length s | Some e \<Rightarrow> slice_index s e)
      in take (to - from) (drop from s))"

text \<open>
  \<open>s.trim()\<close> removes WhiteSpace and LineTerminator code units from both ends.
\<close>

definition is_white_space :: "code_unit \<Rightarrow> bool" where
  "is_white_space c =
     (c \<in> {0x09, 0x0A, 0x0B, 0x0C, 0x0D, 0x20, 0xA0, 0x1680, 0x2028, 0x2029, 0x202F, 0x205F,
            0x3000, 0xFEFF}
      \<or> (0x2000 \<le> c \<and> c \<le> 0x200A))"

definition trim :: "jsstring \<Rightarrow> jsstring" where
  "trim s = rev (dropWhile is_white_space (rev (dropWhile is_white_space s)))"

section \<open>The connection and its surroundings\<close>

text \<open>
  The surroundings a call reads: \<open>process.env\<close>; the socket of the object that the free
  identifier \<open>client\<close> of \<open>destroy\<close> is bound to in the global scope, if it is bound at
  all (nothing in the module declares it); and \<open>JSON.parse\<close>, \<open>None\<close> where it throws a
  \<open>SyntaxError\<close>.
\<close>

record env =
  process_env :: "jsstring \<Rightarrow> jsstring option"
  global_client :: "nat option"
  JSON_parse :: "jsstring \<Rightarrow> jsval option"

text \<open>
  The fields of a \<open>Client\<close>. Sockets and handlers are named by numbers; \<open>data\<close> is the
  key/value store behind \<open>get\<close> and \<open>set\<close>. The queue holds the commands as they were
  pushed: a reference stays a reference, and is read when \<open>tick\<close> serialises the queue.
\<close>

record client =
  socket :: nat
  dataHandlers :: "nat list"
  clientId :: nat
  created :: nat
  data :: "jsstring \<Rightarrow> jsval option"
  tickMode :: bool
  tickModeQueue :: "jsval list"
  packetCounter :: int

text \<open>
  What a call does to the outside, in order: the payloads written to a socket, the
  sockets on which \<open>destroy()\<close> was called, and the data handlers invoked with their
  argument. A handler is an opaque callback: the model records the call and nothing of
  what the handler does itself. \<open>heap\<close> holds the objects that the caller shares with
  the connection.
\<close>

record world =
  writes :: "(nat \<times> jsstring) list"
  closes :: "nat list"
  calls :: "(nat \<times> jsval) list"
  heap :: heap

type_synonym outcome = "(error + jsval) \<times> client \<times> world"

definition TERMINATING_CHARACTER :: code_unit where
  "TERMINATING_CHARACTER = 0"

definition INC_PACKET_SEARCHBOUND :: nat where
  "INC_PACKET_SEARCHBOUND = 100"

definition key :: jsstring where
  "key = js ''5FR%7Yt!7DgB!69rDXZU8pL7!&iHqDpq@9tX@Zir43JsfymWZg2rTzQ02%pVtgK7LO7n0Znh''"

subsection \<open>\<open>getEnv.js\<close>\<close>

definition getenv :: "(jsstring \<Rightarrow> jsstring option) \<Rightarrow> jsstring \<Rightarrow> jsval \<Rightarrow> error + jsval" where
  "getenv penv name defaultValue =
     (let value = (case penv name of None \<Rightarrow> JUndefined | Some v \<Rightarrow> JStr v)
      in if value = JUndefined \<and> defaultValue = JUndefined then Inl (EnvRequired name)
         else Inr (if truthy value then value else defaultValue))"

text \<open>
  The header as text, where it is concatenated and where it is the pattern of
  \<open>replace\<close>: \<open>getenv('PATCH_HEADER')\<close> is a non-empty string, or \<open>undefined\<close> when the
  variable is set to the empty string, and \<open>undefined\<close> reads \<open>"undefined"\<close> in both places.
\<close>

fun header_text :: "jsval \<Rightarrow> jsstring" where
  "header_text (JStr h) = h"
| "header_text _ = js ''undefined''"

subsection \<open>\<open>get\<close>, \<open>set\<close>, \<open>onData\<close>, \<open>setTickMode\<close>, \<open>prepareCommand\<close>\<close>

definition get :: "client \<Rightarrow> jsstring \<Rightarrow> jsval" where
  "get cl k = (case data cl k of None \<Rightarrow> JUndefined | Some v \<Rightarrow> v)"

definition set_key :: "jsstring \<Rightarrow> jsval \<Rightarrow> client \<Rightarrow> client" where
  "set_key k v cl = cl\<lparr>data := (data cl)(k \<mapsto> v)\<rparr>"

definition onData :: "nat \<Rightarrow> client \<Rightarrow> client" where
  "onData handler cl = cl\<lparr>dataHandlers := dataHandlers cl @ [handler]\<rparr>"

definition setTickMode :: "bool \<Rightarrow> client \<Rightarrow> client" where
  "setTickMode onOff cl = cl\<lparr>tickMode := onOff\<rparr>"

definition prepareCommand :: "heap \<Rightarrow> jsval \<Rightarrow> error + jsstring option" where
  "prepareCommand h command = JSON_stringify h command"

subsection \<open>\<open>directSend\<close>, \<open>send\<close>, \<open>batchSend\<close>, \<open>tick\<close>\<close>

definition directSend :: "env \<Rightarrow> jsval \<Rightarrow> client \<times> world \<Rightarrow> outcome" where
  "directSend e command st =
     (case st of (cl, w) \<Rightarrow>
        if truthy (get cl (js ''destroyed'')) then (Inr (JBool False), cl, w)
        else
          (case getenv (process_env e) (js ''PATCH_HEADER'') JUndefined of
             Inl err \<Rightarrow> (Inl err, cl, w)
           | Inr header \<Rightarrow>
               (case JSON_stringify (heap w) command of
                  Inl err \<Rightarrow> (Inl err, cl, w)
                | Inr None \<Rightarrow> (Inl TypeError, cl, w)
                | Inr (Some body) \<Rightarrow>
                    (Inr (JBool True), cl,
                     w\<lparr>writes := writes w @
                         [(socket cl, header_text header @ replace body (header_text header) [])]\<rparr>))))"

text \<open>
  \<open>data.command = command\<close>: on an object the property is set in place or added at the
  end; on \<open>null\<close> and, the module being in strict mode, on a primitive it is a
  \<open>TypeError\<close>; on an array it adds a property that is no element. On a reference it is
  the object in the heap that changes, for everyone who holds the reference; \<open>data\<close>
  stays the same reference.
\<close>

fun set_property :: "(jsstring \<times> jsval) list \<Rightarrow> jsstring \<Rightarrow> jsval \<Rightarrow> (jsstring \<times> jsval) list" where
  "set_property [] k v = [(k, v)]"
| "set_property ((k', v') # kvs) k v =
     (if k' = k then (k, v) # kvs else (k', v') # set_property kvs k v)"

fun assign_command :: "heap \<Rightarrow> jsval \<Rightarrow> jsval \<Rightarrow> error + jsval \<times> heap" where
  "assign_command h (JObj kvs) command =
     Inr (JObj (set_property kvs (js ''command'') command), h)"
| "assign_command h (JArr xs) command = Inr (JArr xs, h)"
| "assign_command h (JRef r) command =
     (case map_of h r of
        None \<Rightarrow> Inl TypeError
      | Some (StoredArray xs) \<Rightarrow> Inr (JRef r, h)
      | Some (StoredObject kvs) \<Rightarrow>
          Inr (JRef r, (r, StoredObject (set_property kvs (js ''command'') command)) # h))"
| "assign_command h _ command = Inl TypeError"

text \<open>
  Reading \<open>data.batch\<close> and \<open>data.commands\<close>: a \<open>TypeError\<close> on \<open>undefined\<close> and \<open>null\<close>,
  the property of an object, and \<open>undefined\<close> on arrays and primitives, which have no
  property of either name.
\<close>

fun property :: "heap \<Rightarrow> jsval \<Rightarrow> jsstring \<Rightarrow> error + jsval" where
  "property h JUndefined k = Inl TypeError"
| "property h JNull k = Inl TypeError"
| "property h (JObj kvs) k = Inr (case map_of kvs k of None \<Rightarrow> JUndefined | Some v \<Rightarrow> v)"
| "property h (JRef r) k =
     (case map_of h r of
        None \<Rightarrow> Inl TypeError
      | Some (StoredArray xs) \<Rightarrow> Inr JUndefined
      | Some (StoredObject kvs) \<Rightarrow> Inr (case map_of kvs k of None \<Rightarrow> JUndefined | Some v \<Rightarrow> v))"
| "property h _ k = Inr JUndefined"

text \<open>
  What one \<open>send\<close> appends to the queue in tick mode: the elements of \<open>data.commands\<close>
  when \<open>data.batch\<close> is truthy (\<open>forEach\<close> exists on arrays only), else \<open>data\<close> itself.
\<close>

definition queued :: "heap \<Rightarrow> jsval \<Rightarrow> error + jsval list" where
  "queued h d =
     (case property h d (js ''batch'') of
        Inl err \<Rightarrow> Inl err
      | Inr b \<Rightarrow>
          if truthy b then
            (case property h d (js ''commands'') of
               Inr (JArr xs) \<Rightarrow> Inr xs
             | Inr (JRef r) \<Rightarrow>
                 (case map_of h r of Some (StoredArray xs) \<Rightarrow> Inr xs | _ \<Rightarrow> Inl TypeError)
             | _ \<Rightarrow> Inl TypeError)
          else Inr [d])"

text \<open>
  The first statement of \<open>send\<close>: with one argument the command is the data, with two
  the command is assigned to \<open>data.command\<close>.
\<close>

definition send_data :: "heap \<Rightarrow> jsval \<Rightarrow> jsval \<Rightarrow> error + jsval \<times> heap" where
  "send_data h command d = (if d = JUndefined then Inr (command, h) else assign_command h d command)"

text \<open>
  \<open>send\<close>. The assignment has happened when a later statement throws, so the heap it
  leaves is kept in every branch.
\<close>

definition send :: "env \<Rightarrow> jsval \<Rightarrow> jsval \<Rightarrow> client \<times> world \<Rightarrow> outcome" where
  "send e command d st =
     (case st of (cl, w) \<Rightarrow>
        (case send_data (heap w) command d of
           Inl err \<Rightarrow> (Inl err, cl, w)
         | Inr (d', h') \<Rightarrow>
             if tickMode cl then
               (case queued h' d' of
                  Inl err \<Rightarrow> (Inl err, cl, w\<lparr>heap := h'\<rparr>)
                | Inr xs \<Rightarrow>
                    (Inr JUndefined, cl\<lparr>tickModeQueue := tickModeQueue cl @ xs\<rparr>, w\<lparr>heap := h'\<rparr>))
             else
               (case directSend e d' (cl, w\<lparr>heap := h'\<rparr>) of
                  (Inl err, st') \<Rightarrow> (Inl err, st')
                | (Inr r, st') \<Rightarrow> (Inr JUndefined, st'))))"

definition batchSend :: "env \<Rightarrow> jsval \<Rightarrow> client \<times> world \<Rightarrow> outcome" where
  "batchSend e commandList st =
     send e (JObj [(js ''batch'', JBool True), (js ''commands'', commandList)]) JUndefined st"

definition tick :: "env \<Rightarrow> client \<times> world \<Rightarrow> outcome" where
  "tick e st =
     (case st of (cl, w) \<Rightarrow>
        if \<not> tickMode cl then (Inl NotInTickMode, cl, w)
        else if tickModeQueue cl \<noteq> [] then
          (case directSend e
                  (JObj [(js ''batch'', JBool True), (js ''commands'', JArr (tickModeQueue cl))])
                  (cl, w) of
             (Inl err, st') \<Rightarrow> (Inl err, st')
           | (Inr r, cl', w') \<Rightarrow> (Inr JUndefined, cl'\<lparr>tickModeQueue := []\<rparr>, w'))
        else (Inr JUndefined, cl, w))"

subsection \<open>\<open>destroy\<close>\<close>

text \<open>
  \<open>destroy\<close> marks the store and then calls \<open>client.socket.destroy()\<close>, where \<open>client\<close>
  is not \<open>this\<close> but the free identifier: unbound, the call throws after the mark is
  set; bound, it is the socket of that object that is closed.
\<close>

definition destroy :: "env \<Rightarrow> client \<times> world \<Rightarrow> outcome" where
  "destroy e st =
     (case st of (cl, w) \<Rightarrow>
        if \<not> truthy (get cl (js ''destroyed'')) then
          (case global_client e of
             None \<Rightarrow> (Inl ReferenceError, set_key (js ''destroyed'') (JBool True) cl, w)
           | Some sock \<Rightarrow>
               (Inr JUndefined, set_key (js ''destroyed'') (JBool True) cl,
                w\<lparr>closes := closes w @ [sock]\<rparr>))
        else (Inr JUndefined, cl, w))"

subsection \<open>\<open>splitCommandAndHash\<close> and \<open>validateClientCommandIntegrity\<close>\<close>

record command_and_hash =
  hash :: jsstring
  actualData :: jsstring

definition splitCommandAndHash :: "jsstring \<Rightarrow> command_and_hash" where
  "splitCommandAndHash d =
     (let hashLength = 40
      in \<lparr>hash = slice d (- hashLength) None, actualData = slice d 0 (Some (- hashLength))\<rparr>)"

text \<open>
  \<open>serverHash\<close> of one candidate: the hexadecimal SHA-1 digest of the UTF-8 bytes of
  the payload, the key and the candidate as \<open>toString\<close> prints it.
\<close>

definition serverHash :: "jsstring \<Rightarrow> int \<Rightarrow> jsstring" where
  "serverHash d checkPacket = sha1_hex (utf8 (d @ key @ toString checkPacket))"

text \<open>
  The \<open>for\<close> loop from \<open>i\<close> on: the first candidate \<open>counter + i\<close>, a sum of JavaScript
  numbers, whose digest is the packet's, or \<open>None\<close> when the loop runs out at the search
  bound.
\<close>

function search :: "command_and_hash \<Rightarrow> int \<Rightarrow> nat \<Rightarrow> int option" where
  "search d counter i =
     (if i < INC_PACKET_SEARCHBOUND then
        (if serverHash (actualData d) (js_add counter (int i)) = hash d
         then Some (js_add counter (int i))
         else search d counter (i + 1))
      else None)"
  by pat_completeness auto
termination
  by (relation "measure (\<lambda>(d, counter, i). INC_PACKET_SEARCHBOUND - i)") auto

declare search.simps [simp del]

definition validateClientCommandIntegrity :: "env \<Rightarrow> command_and_hash \<Rightarrow> client \<times> world \<Rightarrow> outcome" where
  "validateClientCommandIntegrity e d st =
     (case st of (cl, w) \<Rightarrow>
        (case search d (packetCounter cl) 0 of
           Some checkPacket \<Rightarrow> (Inr (JBool True), cl\<lparr>packetCounter := checkPacket\<rparr>, w)
         | None \<Rightarrow>
             (case destroy e (cl, w) of
                (Inl err, st') \<Rightarrow> (Inl err, st')
              | (Inr r, st') \<Rightarrow> (Inr (JBool False), st'))))"

subsection \<open>\<open>getObjectFromRaw\<close> and the socket's data event\<close>

text \<open>
  The input is \<open>rawSocketDataString\<close>, the buffer as \<open>toString('utf8')\<close> decoded it.
  \<open>trimmedData\<close> is the text that goes on to the split: up to the first terminating
  character if there is one, and the placeholder when that is empty or white space.
\<close>

definition missingSocketDataString :: jsstring where
  \<open>missingSocketDataString = js ''{"command": "missingSocketDataString"}''\<close>

definition trimmedData :: "jsstring \<Rightarrow> jsstring" where
  "trimmedData rawSocketDataString =
     (let terminatingIndex = indexOf rawSocketDataString TERMINATING_CHARACTER;
          trimmed = (if terminatingIndex > - 1 then substr rawSocketDataString 0 terminatingIndex
                     else rawSocketDataString)
      in if trim trimmed = [] then missingSocketDataString else trimmed)"


definition getObjectFromRaw :: "env \<Rightarrow> jsstring \<Rightarrow> client \<times> world \<Rightarrow> outcome" where
  "getObjectFromRaw e rawSocketDataString st =
     (let dataSplit = splitCommandAndHash (trimmedData rawSocketDataString)
      in case validateClientCommandIntegrity e dataSplit st of
           (Inl err, st') \<Rightarrow> (Inl err, st')
         | (Inr validated, st') \<Rightarrow>
             if truthy validated then
               (case JSON_parse e (actualData dataSplit) of
                  None \<Rightarrow> (Inr (JBool False), st')
                | Some objectFromData \<Rightarrow> (Inr objectFromData, st'))
             else (Inr (JBool False), st'))"

text \<open>The listener that the constructor registers for the socket's \<open>data\<close> event.\<close>

definition on_data :: "env \<Rightarrow> jsstring \<Rightarrow> client \<times> world \<Rightarrow> outcome" where
  "on_data e rawSocketDataString st =
     (case getObjectFromRaw e rawSocketDataString st of
        (Inl err, st') \<Rightarrow> (Inl err, st')
      | (Inr dataAsObject, cl, w) \<Rightarrow>
          if dataAsObject = JBool False then (Inr JUndefined, cl, w)
          else
            (Inr JUndefined, cl\<lparr>packetCounter := js_add (packetCounter cl) 1\<rparr>,
             w\<lparr>calls := calls w @ map (\<lambda>handler. (handler, dataAsObject)) (dataHandlers cl)\<rparr>))"

subsection \<open>The constructor\<close>

definition new_Client :: "env \<Rightarrow> nat \<Rightarrow> nat \<Rightarrow> nat \<Rightarrow> world \<Rightarrow> outcome" where
  "new_Client e sock uniqueId now w =
     send e (JObj [(js ''command'', JStr (js ''connected''))]) JUndefined
       (\<lparr>socket = sock, dataHandlers = [], clientId = uniqueId, created = now,
         data = Map.empty, tickMode = False, tickModeQueue = [], packetCounter = 0\<rparr>, w)"

subsection \<open>The operations of a connection, one after another\<close>

text \<open>
  One constructor for the data event and one for each method of the class. \<open>on\<close> hands
  its handler to the socket, which is outside the state modelled here.
\<close>

datatype operation =
    Data jsstring
  | Send jsval jsval
  | DirectSend jsval
  | PrepareCommand jsval
  | BatchSend jsval
  | Set jsstring jsval
  | Get jsstring
  | On jsstring nat
  | OnData nat
  | SetTickMode bool
  | Tick
  | Destroy

fun step :: "env \<Rightarrow> operation \<Rightarrow> client \<times> world \<Rightarrow> outcome" where
  "step e (Data raw) st = on_data e raw st"
| "step e (Send command d) st = send e command d st"
| "step e (DirectSend command) st = directSend e command st"
| "step e (PrepareCommand command) (cl, w) =
     (case prepareCommand (heap w) command of
        Inl err \<Rightarrow> (Inl err, cl, w)
      | Inr None \<Rightarrow> (Inr JUndefined, cl, w)
      | Inr (Some t) \<Rightarrow> (Inr (JStr t), cl, w))"
| "step e (BatchSend commandList) st = batchSend e commandList st"
| "step e (Set k v) (cl, w) = (Inr JUndefined, set_key k v cl, w)"
| "step e (Get k) (cl, w) = (Inr (get cl k), cl, w)"
| "step e (On eventName handler) (cl, w) = (Inr JUndefined, cl, w)"
| "step e (OnData handler) (cl, w) = (Inr JUndefined, onData handler cl, w)"
| "step e (SetTickMode onOff) (cl, w) = (Inr JUndefined, setTickMode onOff cl, w)"
| "step e Tick st = tick e st"
| "step e Destroy st = destroy e st"

text \<open>A run keeps the state an operation leaves behind, also when the operation threw.\<close>

fun run :: "env \<Rightarrow> operation list \<Rightarrow> client \<times> world \<Rightarrow> client \<times> world" where
  "run e [] st = st"
| "run e (x # xs) st = run e xs (snd (step e x st))"


section \<open>The words of the specification, for comparison\<close>

text \<open>
  The digest of a frame as the specification builds it for a sequence number \<open>s\<close>: the
  SHA-1 digest of the payload, then the shared secret, then the decimal string of \<open>s\<close>, in
  40 hexadecimal characters. The validator has \<open>serverHash\<close>, with \<open>toString\<close>, in its
  place.
\<close>

definition decimal_string :: "int \<Rightarrow> jsstring" where
  "decimal_string s = (if s < 0 then js ''-'' @ decimal (nat (- s)) else decimal (nat s))"

definition keyed_digest :: "jsstring \<Rightarrow> int \<Rightarrow> jsstring" where
  "keyed_digest p s = sha1_hex (utf8 (p @ key @ decimal_string s))"

text \<open>
  What consecutive \<open>send\<close> calls put into the queue, call after call, from the heap \<open>h\<close>
  on: the command of each call (with two arguments, the data object after the command
  name has been assigned to it), or the elements of its \<open>commands\<close> when it is a batch.
  The result is the queued values in call order and the heap after the last call, or the
  error of the first call that throws.
\<close>

fun enqueued :: "heap \<Rightarrow> (jsval \<times> jsval) list \<Rightarrow> error + jsval list \<times> heap" where
  "enqueued h [] = Inr ([], h)"
| "enqueued h ((command, d) # args) =
     (case send_data h command d of
        Inl err \<Rightarrow> Inl err
      | Inr (x, h') \<Rightarrow>
          (case queued h' x of
             Inl err \<Rightarrow> Inl err
           | Inr xs \<Rightarrow>
               (case enqueued h' args of
                  Inl err \<Rightarrow> Inl err
                | Inr (ys, h'') \<Rightarrow> Inr (xs @ ys, h''))))"

section \<open>Concrete surroundings and connections for the examples\<close>

text \<open>
  \<open>JSON.parse\<close> on the payloads of the examples: the command \<open>{"command":"ping"}\<close> and
  the literal \<open>false\<close> parse; \<open>{"command":\<close>, the command cut short, is a \<open>SyntaxError\<close>.
  It stands for \<open>JSON.parse\<close> on these three texts, the only ones the examples parse.
\<close>

definition ping_command :: jsval where
  "ping_command = JObj [(js ''command'', JStr (js ''ping''))]"

definition parse_examples :: "jsstring \<Rightarrow> jsval option" where
  \<open>parse_examples t =
     (if t = js ''{"command":"ping"}'' then Some ping_command
      else if t = js ''false'' then Some (JBool False)
      else None)\<close>

text \<open>
  A process with \<open>PATCH_HEADER=HDR\<close> and no global \<open>client\<close>; a world in which nothing
  has happened yet and the heap is empty; and a connection on socket 1 with one data handler, as the
  constructor and one \<open>onData\<close> leave it.
\<close>

definition env0 :: env where
  "env0 = \<lparr>process_env = [js ''PATCH_HEADER'' \<mapsto> js ''HDR''], global_client = None,
           JSON_parse = parse_examples\<rparr>"

definition world0 :: world where
  "world0 = \<lparr>writes = [], closes = [], calls = [], heap = []\<rparr>"

definition client0 :: client where
  "client0 = \<lparr>socket = 1, dataHandlers = [7], clientId = 1, created = 0, data = Map.empty,
              tickMode = False, tickModeQueue = [], packetCounter = 0\<rparr>"

text \<open>The same connection after \<open>destroy\<close>, and with tick mode on.\<close>

definition destroyed0 :: client where
  "destroyed0 = set_key (js ''destroyed'') (JBool True) client0"





text \<open>A command whose text holds the header twice.\<close>

definition spoof_command :: jsval where
  "spoof_command = JObj [(js ''command'', JStr (js ''HDRHDR''))]"

definition ping :: jsstring where
  \<open>ping = js ''{"command":"ping"}''\<close>

definition cut_short :: jsstring where
  \<open>cut_short = js ''{"command":''\<close>

text \<open>
  A payload with characters of two, three and four bytes in UTF-8: \<open>caf\<close> and an e with
  an acute accent, the euro sign, and an emoji, which is a surrogate pair.
\<close>

definition greeting :: jsstring where
  \<open>greeting = js ''{"command":"caf'' @ [0xE9, 0x20, 0x20AC, 0x20, 0xD83D, 0xDE00] @ js ''"}''\<close>





section \<open>Arithmetic of the packet counter\<close>

text \<open>
  Where the numbers are exact (below \<open>2 ^ 53\<close>), where they are rounded, and that a sum
  with a non-negative integer is never below the number it started from.
\<close>

lemma spacing_small: "n < 2 ^ 53 \<Longrightarrow> spacing n = 1"
  by (simp add: spacing.simps)

lemma spacing_big: "2 ^ 53 \<le> n \<Longrightarrow> \<exists>k>0. spacing n = 2 ^ k \<and> 2 ^ (52 + k) \<le> n \<and> n < 2 ^ (53 + k)"
proof (induction n rule: spacing.induct)
  case (1 n)
  then have n: "\<not> n < 2 ^ 53" by simp
  show ?case
  proof (cases "n div 2 < 2 ^ 53")
    case True
    then have "spacing (n div 2) = 1" by (rule spacing_small)
    then have "spacing n = 2 ^ 1" using n by (simp add: spacing.simps [of n])
    moreover have "2 ^ (52 + 1) \<le> n \<and> n < 2 ^ (53 + 1)" using True 1(2) by simp
    ultimately show ?thesis by blast
  next
    case False
    then obtain k where k: "0 < k" "spacing (n div 2) = 2 ^ k" "2 ^ (52 + k) \<le> n div 2"
        "n div 2 < 2 ^ (53 + k)"
      using 1(1) [OF n] by auto
    have "spacing n = 2 ^ Suc k" using n k(2) by (simp add: spacing.simps [of n])
    moreover have "2 ^ (52 + Suc k) \<le> n" using k(3) by (simp add: power_add)
    moreover have "n < 2 ^ (53 + Suc k)" using k(4) by (simp add: power_add)
    ultimately show ?thesis by blast
  qed
qed

lemma spacing_unique:
  assumes "0 < k" "2 ^ (52 + k) \<le> n" "n < 2 ^ (53 + k)"
  shows "spacing n = 2 ^ k"
proof -
  have "(2::nat) ^ 53 \<le> 2 ^ (52 + k)" using assms(1) by (intro power_increasing) simp_all
  with assms(2) have "2 ^ 53 \<le> n" by simp
  then obtain j where j: "0 < j" "spacing n = 2 ^ j" "2 ^ (52 + j) \<le> n" "n < 2 ^ (53 + j)"
    using spacing_big by blast
  have "(2::nat) ^ (52 + j) < 2 ^ (53 + k)" using j(3) assms(3) by (rule le_less_trans)
  then have "52 + j < 53 + k" by (simp only: power_strict_increasing_iff one_less_numeral_iff semiring_norm)
  moreover have "(2::nat) ^ (52 + k) < 2 ^ (53 + j)" using assms(2) j(4) by (rule le_less_trans)
  then have "52 + k < 53 + j" by (simp only: power_strict_increasing_iff one_less_numeral_iff semiring_norm)
  ultimately have "j = k" by simp
  with j(2) show ?thesis by simp
qed

lemma round_half_even_1: "round_half_even 1 x = x"
  by (simp add: round_half_even_def)

lemma round53_exact: "\<bar>x\<bar> < 2 ^ 53 \<Longrightarrow> round53 x = x"
proof -
  assume "\<bar>x\<bar> < 2 ^ 53"
  then have "nat \<bar>x\<bar> < 2 ^ 53" by (simp add: nat_less_iff)
  then show ?thesis by (simp add: round53_def spacing_small round_half_even_1)
qed

lemma round_half_even_bounds:
  assumes "0 < q"
  shows "x div q * q \<le> round_half_even q x" and "round_half_even q x \<le> x div q * q + q"
    and "q dvd round_half_even q x"
  using assms by (auto simp: round_half_even_def Let_def)

lemma round53_big:
  assumes "2 ^ 53 \<le> \<bar>x\<bar>"
  obtains k where "0 < k" "2 ^ (52 + k) \<le> \<bar>x\<bar>" "\<bar>x\<bar> < 2 ^ (53 + k)"
    "round53 x = round_half_even (2 ^ k) x"
proof -
  have "2 ^ 53 \<le> nat \<bar>x\<bar>" using assms by (simp add: le_nat_iff)
  then obtain k where k: "0 < k" "spacing (nat \<bar>x\<bar>) = 2 ^ k" "2 ^ (52 + k) \<le> nat \<bar>x\<bar>"
      "nat \<bar>x\<bar> < 2 ^ (53 + k)"
    using spacing_big by blast
  then have "2 ^ (52 + k) \<le> \<bar>x\<bar>" "\<bar>x\<bar> < 2 ^ (53 + k)"
    by (simp_all add: nat_less_iff le_nat_iff)
  moreover have "round53 x = round_half_even (2 ^ k) x" using k(2) by (simp add: round53_def)
  ultimately show ?thesis using k(1) that by blast
qed

lemma round53_at:
  assumes "0 < k" "2 ^ (52 + k) \<le> \<bar>x\<bar>" "\<bar>x\<bar> < 2 ^ (53 + k)"
  shows "round53 x = round_half_even (2 ^ k) x"
proof -
  have "2 ^ (52 + k) \<le> nat \<bar>x\<bar>" "nat \<bar>x\<bar> < 2 ^ (53 + k)"
    using assms by (simp_all add: nat_less_iff le_nat_iff)
  then have "spacing (nat \<bar>x\<bar>) = 2 ^ k" using assms(1) by (intro spacing_unique)
  then show ?thesis by (simp add: round53_def)
qed

lemma floor_multiple:
  fixes a q x :: int
  assumes "0 < q" and "q dvd a" and "a \<le> x"
  shows "a \<le> x div q * q"
proof -
  have "a div q \<le> x div q" using assms(3,1) by (rule zdiv_mono1)
  then have "a div q * q \<le> x div q * q" using assms(1) by simp
  then show ?thesis using assms(2) by simp
qed

lemma round53_ge:
  assumes "2 ^ 53 \<le> x"
  shows "2 ^ 53 \<le> round53 x"
proof -
  from assms have "2 ^ 53 \<le> \<bar>x\<bar>" by simp
  then obtain k where k: "0 < k" "2 ^ (52 + k) \<le> \<bar>x\<bar>" "round53 x = round_half_even (2 ^ k) x"
    using round53_big [of x] by blast
  have "(2::int) ^ k dvd 2 ^ (52 + k)" by (simp add: le_imp_power_dvd)
  moreover have "(2::int) ^ (52 + k) \<le> x" using k(2) assms by simp
  ultimately have "(2::int) ^ (52 + k) \<le> x div 2 ^ k * 2 ^ k"
    by (intro floor_multiple) simp_all
  also have "\<dots> \<le> round53 x" unfolding k(3) by (rule round_half_even_bounds) simp
  finally have "(2::int) ^ (52 + k) \<le> round53 x" .
  moreover have "(2::int) ^ 53 \<le> 2 ^ (52 + k)" using k(1) by (intro power_increasing) simp_all
  ultimately show ?thesis by linarith
qed

lemma round53_reads_back:
  assumes "0 \<le> x" "x < 2 ^ 53" "0 \<le> c" "round53 c = x"
  shows "c = x"
proof (cases "c < 2 ^ 53")
  case True
  with assms(3) have "round53 c = c" by (intro round53_exact) simp
  with assms(4) show ?thesis by simp
next
  case False
  then have "2 ^ 53 \<le> round53 c" by (intro round53_ge) simp
  with assms show ?thesis by simp
qed

lemma shortest_from_exact:
  assumes "0 \<le> x" "x < 2 ^ 53"
  shows "shortest_from e x = x"
proof (induction e)
  case 0
  show ?case by simp
next
  case (Suc e)
  let ?q = "(10::int) ^ Suc e"
  let ?lo = "x div ?q * ?q"
  have q: "0 < ?q" by simp
  have lo: "0 \<le> ?lo" using assms(1) q by (simp add: pos_imp_zdiv_nonneg_iff)
  have "x < ?lo + ?q"
    using q by (metis add.commute div_mult_mod_eq add_less_cancel_left pos_mod_bound)
  then have hi: "round53 (?lo + ?q) \<noteq> x"
    using round53_reads_back [OF assms, of "?lo + ?q"] lo q by auto
  have "round53 ?lo = x \<Longrightarrow> ?lo = x"
    using round53_reads_back [OF assms lo] by simp
  with hi Suc show ?case by (auto simp: Let_def simp del: power_Suc)
qed

lemma digit_count_le: "0 < k \<Longrightarrow> n < 10 ^ k \<Longrightarrow> digit_count n \<le> k"
proof (induction n arbitrary: k rule: digit_count.induct)
  case (1 n)
  show ?case
  proof (cases "n < 10")
    case True
    with 1(2) show ?thesis by (simp add: digit_count.simps [of n] Suc_leI)
  next
    case False
    then obtain k' where k: "k = Suc k'" using 1(2) by (cases k) auto
    with False 1(3) have "0 < k'" by (cases k') auto
    moreover have "n div 10 < 10 ^ k'" using 1(3) k by auto
    ultimately have "digit_count (n div 10) \<le> k'" using False by (intro 1(1)) auto
    with False k show ?thesis by (simp add: digit_count.simps [of n])
  qed
qed

lemma toString_decimal:
  assumes "\<bar>x\<bar> < 2 ^ 53"
  shows "toString x = (if x < 0 then js ''-'' @ decimal (nat (- x)) else decimal (nat x))"
proof -
  have "nat \<bar>x\<bar> < 10 ^ 21" using assms by (simp add: nat_less_iff)
  then have "digit_count (nat \<bar>x\<bar>) \<le> 21" by (intro digit_count_le) simp_all
  moreover have "shortest \<bar>x\<bar> = \<bar>x\<bar>"
    using assms by (simp add: shortest_def shortest_from_exact)
  ultimately show ?thesis by (simp add: toString_def)
qed

lemma js_add_exact:
  assumes "\<bar>a\<bar> < 2 ^ 53" "\<bar>a + b\<bar> < 2 ^ 53"
  shows "js_add a b = a + b"
  using assms by (simp add: js_add_def round53_exact)

lemma js_add_0: "js_add a 0 = a"
  by (simp add: js_add_def)


lemma round53_monotone:
  assumes "round53 a = a" and "a \<le> y"
  shows "a \<le> round53 y"
proof -
  consider "\<bar>y\<bar> < 2 ^ 53" | "2 ^ 53 \<le> y" | "y \<le> - (2 ^ 53)" by linarith
  then show ?thesis
  proof cases
    case 1
    then show ?thesis using assms(2) by (simp add: round53_exact)
  next
    case 2
    then have "2 ^ 53 \<le> \<bar>y\<bar>" by simp
    then obtain k where k: "0 < k" "2 ^ (52 + k) \<le> \<bar>y\<bar>"
        "\<bar>y\<bar> < 2 ^ (53 + k)" "round53 y = round_half_even (2 ^ k) y"
      by (rule round53_big)
    have "a \<le> y div 2 ^ k * 2 ^ k"
    proof (cases "a < 2 ^ (52 + k)")
      case True
      have "(2::int) ^ k dvd 2 ^ (52 + k)" by (simp add: le_imp_power_dvd)
      moreover have "(2::int) ^ (52 + k) \<le> y" using k(2) 2 by simp
      ultimately have "(2::int) ^ (52 + k) \<le> y div 2 ^ k * 2 ^ k"
        by (intro floor_multiple) simp_all
      with True show ?thesis by simp
    next
      case False
      have "(0::int) < 2 ^ (52 + k)" by simp
      with False have "0 < a" by linarith
      with False have "2 ^ (52 + k) \<le> \<bar>a\<bar>" "\<bar>a\<bar> < 2 ^ (53 + k)"
        using assms(2) k(3) 2 by simp_all
      then have "round53 a = round_half_even (2 ^ k) a" using k(1) by (intro round53_at)
      moreover have "2 ^ k dvd round_half_even (2 ^ k) a" by (rule round_half_even_bounds) simp
      ultimately have "2 ^ k dvd a" using assms(1) by simp
      then show ?thesis using assms(2) by (intro floor_multiple) simp_all
    qed
    also have "\<dots> \<le> round53 y" unfolding k(4) by (rule round_half_even_bounds) simp
    finally show ?thesis .
  next
    case 3
    then have "2 ^ 53 \<le> \<bar>y\<bar>" by simp
    then obtain k where k: "0 < k" "2 ^ (52 + k) \<le> \<bar>y\<bar>"
        "\<bar>y\<bar> < 2 ^ (53 + k)" "round53 y = round_half_even (2 ^ k) y"
      by (rule round53_big)
    from 3 assms(2) k(2) have "2 ^ 53 \<le> \<bar>a\<bar>" and big: "2 ^ (52 + k) \<le> \<bar>a\<bar>" by simp_all
    then obtain j where j: "\<bar>a\<bar> < 2 ^ (53 + j)" "round53 a = round_half_even (2 ^ j) a"
      using round53_big [of a] by blast
    have "k \<le> j"
    proof (rule ccontr)
      assume "\<not> k \<le> j"
      then have "53 + j \<le> 52 + k" by simp
      then have "(2::int) ^ (53 + j) \<le> 2 ^ (52 + k)" by (intro power_increasing) simp_all
      with j(1) big show False by simp
    qed
    have "2 ^ j dvd round_half_even (2 ^ j) a" by (rule round_half_even_bounds) simp
    then have "(2::int) ^ j dvd a" using assms(1) j(2) by simp
    moreover have "(2::int) ^ k dvd 2 ^ j" using \<open>k \<le> j\<close> by (simp add: le_imp_power_dvd)
    ultimately have "(2::int) ^ k dvd a" by (rule dvd_trans [rotated])
    then have "a \<le> y div 2 ^ k * 2 ^ k" using assms(2) by (intro floor_multiple) simp_all
    also have "\<dots> \<le> round53 y" unfolding k(4) by (rule round_half_even_bounds) simp
    finally show ?thesis .
  qed
qed

text \<open>Rounding a number again changes nothing: a sum of numbers is a number.\<close>

lemma round_half_even_dvd:
  assumes "0 < q" "q dvd x"
  shows "round_half_even q x = x"
  using assms by (auto simp: round_half_even_def Let_def)

lemma round_half_even_le:
  assumes "0 < q" and "q dvd b" and "x \<le> b"
  shows "round_half_even q x \<le> b"
proof (cases "x = b")
  case True
  with assms show ?thesis by (simp add: round_half_even_dvd)
next
  case False
  with assms(3) have "x < b" by simp
  have "x div q < b div q"
  proof (rule ccontr)
    assume "\<not> x div q < b div q"
    then have "b div q \<le> x div q" by simp
    then have "b div q * q \<le> x div q * q" using assms(1) by simp
    moreover have "b div q * q = b" using assms(2) by simp
    moreover have "x div q * q \<le> x"
      using assms(1) by (metis add.commute add_increasing2 div_mult_mod_eq order_refl pos_mod_sign)
    ultimately show False using \<open>x < b\<close> by simp
  qed
  then have "x div q + 1 \<le> b div q" by simp
  then have "(x div q + 1) * q \<le> b div q * q" using assms(1) by (simp only: mult_le_cancel_right) simp
  then have "x div q * q + q \<le> b" using assms(2) by (simp add: algebra_simps)
  moreover have "round_half_even q x \<le> x div q * q + q" using assms(1) by (rule round_half_even_bounds)
  ultimately show ?thesis by simp
qed

lemma round_half_even_ge:
  assumes "0 < q" and "q dvd a" and "a \<le> x"
  shows "a \<le> round_half_even q x"
proof -
  have "a \<le> x div q * q" using assms by (rule floor_multiple)
  also have "\<dots> \<le> round_half_even q x" using assms(1) by (rule round_half_even_bounds)
  finally show ?thesis .
qed

lemma round53_round53: "round53 (round53 x) = round53 x"
proof (cases "\<bar>x\<bar> < 2 ^ 53")
  case True
  then show ?thesis by (simp add: round53_exact)
next
  case False
  then have "2 ^ 53 \<le> \<bar>x\<bar>" by simp
  then obtain k where k: "0 < k" "2 ^ (52 + k) \<le> \<bar>x\<bar>" "\<bar>x\<bar> < 2 ^ (53 + k)"
      "round53 x = round_half_even (2 ^ k) x"
    by (rule round53_big)
  let ?q = "(2::int) ^ k"
  let ?r = "round_half_even ?q x"
  have q: "0 < ?q" by simp
  have lo: "?q dvd 2 ^ (52 + k)" and hi: "?q dvd 2 ^ (53 + k)" by (simp_all add: le_imp_power_dvd)
  have d: "?q dvd ?r" using q by (rule round_half_even_bounds)
  have bounds: "2 ^ (52 + k) \<le> \<bar>?r\<bar> \<and> \<bar>?r\<bar> \<le> 2 ^ (53 + k)"
  proof (cases "0 \<le> x")
    case True
    with k have "2 ^ (52 + k) \<le> x" "x \<le> 2 ^ (53 + k)" by simp_all
    then have "2 ^ (52 + k) \<le> ?r" "?r \<le> 2 ^ (53 + k)"
      using round_half_even_ge [OF q lo] round_half_even_le [OF q hi] by blast+
    moreover have "(0::int) < 2 ^ (52 + k)" by simp
    ultimately show ?thesis by linarith
  next
    case False
    with k have "- (2 ^ (53 + k)) \<le> x" "x \<le> - (2 ^ (52 + k))" by simp_all
    moreover have "?q dvd - (2 ^ (52 + k))" "?q dvd - (2 ^ (53 + k))" using lo hi by simp_all
    ultimately have "- (2 ^ (53 + k)) \<le> ?r" "?r \<le> - (2 ^ (52 + k))"
      using round_half_even_ge [OF q] round_half_even_le [OF q] by blast+
    moreover have "(0::int) < 2 ^ (52 + k)" by simp
    ultimately show ?thesis by linarith
  qed
  show ?thesis
  proof (cases "\<bar>?r\<bar> < 2 ^ (53 + k)")
    case True
    with bounds k(1) have "round53 ?r = round_half_even ?q ?r" by (intro round53_at) simp_all
    then show ?thesis using d q by (simp add: k(4) round_half_even_dvd)
  next
    case False
    with bounds have eq: "\<bar>?r\<bar> = 2 ^ (53 + k)" by simp
    then have "2 ^ (52 + Suc k) \<le> \<bar>?r\<bar>" "\<bar>?r\<bar> < 2 ^ (53 + Suc k)" by simp_all
    then have "round53 ?r = round_half_even (2 ^ Suc k) ?r" by (intro round53_at) simp_all
    moreover have "(2::int) ^ Suc k dvd 2 ^ (53 + k)" by (intro le_imp_power_dvd) simp
    then have "(2::int) ^ Suc k dvd \<bar>?r\<bar>" unfolding eq .
    then have "(2::int) ^ Suc k dvd ?r" by simp
    ultimately show ?thesis
      using round_half_even_dvd [of "2 ^ Suc k" ?r] by (simp add: k(4))
  qed
qed

lemma js_add_number: "round53 a = a \<Longrightarrow> round53 (js_add a b) = js_add a b"
  by (simp add: js_add_def round53_round53)

lemma js_add_ge: "0 \<le> b \<Longrightarrow> a \<le> js_add a b"
  by (simp add: js_add_def round53_monotone)



lemma decimal_numeral:
  "decimal (numeral k) =
     (if (numeral k :: nat) < 10 then [of_nat (48 + numeral k)]
      else decimal (numeral k div 10) @ [of_nat (48 + numeral k mod 10)])"
  "decimal 0 = [48]"
  "decimal (Suc 0) = [49]"
  by (simp_all add: decimal.simps [of "numeral k"] decimal.simps [of 0] decimal.simps [of "Suc 0"])





section \<open>The digest and the split\<close>

lemma length_hex32: "length (hex32 w) = 8"
  by (simp add: hex32_def)

lemma length_sha1_hex: "length (sha1_hex m) = 40"
  by (simp add: sha1_hex_def length_hex32 split: prod.splits)

lemma length_serverHash: "length (serverHash d n) = 40"
  by (simp add: serverHash_def length_sha1_hex)

lemma length_keyed_digest: "length (keyed_digest p s) = 40"
  by (simp add: keyed_digest_def length_sha1_hex)

text \<open>
  For a sequence number in the range where the integers are numbers, the validator
  computes the digest of the specification.
\<close>

lemma serverHash_keyed_digest:
  assumes "\<bar>k\<bar> < 2 ^ 53"
  shows "serverHash p k = keyed_digest p k"
  using assms by (simp add: serverHash_def keyed_digest_def decimal_string_def toString_decimal)

lemma split_frame:
  assumes "length h = 40"
  shows "splitCommandAndHash (p @ h) = \<lparr>hash = h, actualData = p\<rparr>"
  using assms by (simp add: splitCommandAndHash_def slice_def slice_index_def Let_def)

section \<open>The candidate search\<close>

lemma search_first:
  assumes "i \<le> n" "n < INC_PACKET_SEARCHBOUND"
      and "serverHash (actualData d) (js_add c (int n)) = hash d"
      and "\<forall>j. i \<le> j \<and> j < n \<longrightarrow> serverHash (actualData d) (js_add c (int j)) \<noteq> hash d"
  shows "search d c i = Some (js_add c (int n))"
  using assms
proof (induction d c i rule: search.induct)
  case (1 d counter i)
  show ?case
  proof (cases "i = n")
    case True
    with 1 show ?thesis by (simp add: search.simps)
  next
    case False
    with 1 have lt: "i < n"
      and nomatch: "serverHash (actualData d) (js_add counter (int i)) \<noteq> hash d"
      by auto
    from 1 lt have "i < INC_PACKET_SEARCHBOUND" by simp
    moreover have "search d counter (i + 1) = Some (js_add counter (int n))"
      using 1 lt nomatch by (intro "1.IH") auto
    ultimately show ?thesis using nomatch by (simp add: search.simps)
  qed
qed

lemma search_None:
  assumes "\<forall>j. i \<le> j \<and> j < INC_PACKET_SEARCHBOUND \<longrightarrow>
             serverHash (actualData d) (js_add c (int j)) \<noteq> hash d"
  shows "search d c i = None"
  using assms
proof (induction d c i rule: search.induct)
  case (1 d counter i)
  show ?case
  proof (cases "i < INC_PACKET_SEARCHBOUND")
    case True
    then have "search d counter (i + 1) = None" using 1 by (intro "1.IH") auto
    with True 1 show ?thesis by (simp add: search.simps)
  next
    case False
    then show ?thesis by (simp add: search.simps)
  qed
qed

text \<open>What the search returns is one of the candidates, and no candidate is below the counter.\<close>

lemma search_candidate:
  "search d c i = Some k \<Longrightarrow> \<exists>j<INC_PACKET_SEARCHBOUND. k = js_add c (int j)"
proof (induction d c i rule: search.induct)
  case (1 d counter i)
  then show ?case
    by (simp add: search.simps [of d counter i] split: if_splits) blast
qed

lemma search_ge: "search d c i = Some k \<Longrightarrow> c \<le> k"
  using search_candidate [of d c i k] by (auto simp: js_add_ge)

lemma validate_accept:
  assumes "search d (packetCounter cl) 0 = Some k"
  shows "validateClientCommandIntegrity e d (cl, w) = (Inr (JBool True), cl\<lparr>packetCounter := k\<rparr>, w)"
  using assms by (simp add: validateClientCommandIntegrity_def)

lemma validate_reject:
  assumes "search d (packetCounter cl) 0 = None"
  shows "validateClientCommandIntegrity e d (cl, w) =
         (case destroy e (cl, w) of (Inl err, st') \<Rightarrow> (Inl err, st') | (Inr r, st') \<Rightarrow> (Inr (JBool False), st'))"
  using assms by (simp add: validateClientCommandIntegrity_def)


text \<open>
  The candidates of a counter \<open>c\<close> whose window lies between \<open>- (2 ^ 53)\<close> and \<open>2 ^ 53\<close> are
  the integers from \<open>c\<close> on, and their digests are those of the specification.
\<close>

lemma candidate_exact:
  assumes "- (2 ^ 53) < c" "c + 100 \<le> 2 ^ 53" "j < 100"
  shows "js_add c (int j) = c + int j"
    and "serverHash p (js_add c (int j)) = keyed_digest p (c + int j)"
proof -
  show e: "js_add c (int j) = c + int j"
    using assms by (intro js_add_exact) simp_all
  show "serverHash p (js_add c (int j)) = keyed_digest p (c + int j)"
    unfolding e using assms by (intro serverHash_keyed_digest) simp_all
qed

section \<open>The inbound path\<close>

lemma payload_of_frame: "actualData (splitCommandAndHash (p @ serverHash p n)) = p"
  by (simp add: split_frame length_serverHash)

lemma js_add_0_1: "js_add 0 1 = 1"
  by (simp add: js_add_exact)

lemma validate_True:
  assumes "validateClientCommandIntegrity e d (cl, w) = (Inr (JBool True), cl', w')"
  shows "w' = w \<and> cl' = cl\<lparr>packetCounter := packetCounter cl'\<rparr> \<and> search d (packetCounter cl) 0 = Some (packetCounter cl')"
  using assms
  by (auto simp: validateClientCommandIntegrity_def destroy_def split: option.splits if_splits)

lemma validate_first_candidate:
  assumes "length h = 40" "serverHash p (packetCounter cl) = h"
  shows "validateClientCommandIntegrity e (splitCommandAndHash (p @ h)) (cl, w) = (Inr (JBool True), cl, w)"
proof -
  have "search \<lparr>hash = h, actualData = p\<rparr> (packetCounter cl) 0 = Some (js_add (packetCounter cl) (int 0))"
    using assms by (intro search_first) (simp_all add: INC_PACKET_SEARCHBOUND_def js_add_0)
  then show ?thesis using assms by (simp add: split_frame validate_accept js_add_0)
qed

lemma on_data_validated:
  assumes "validateClientCommandIntegrity e (splitCommandAndHash (trimmedData raw)) st = (Inr (JBool True), cl', w')"
  shows "on_data e raw st =
         (case JSON_parse e (actualData (splitCommandAndHash (trimmedData raw))) of
            None \<Rightarrow> (Inr JUndefined, cl', w')
          | Some v \<Rightarrow>
              if v = JBool False then (Inr JUndefined, cl', w')
              else (Inr JUndefined, cl'\<lparr>packetCounter := js_add (packetCounter cl') 1\<rparr>,
                    w'\<lparr>calls := calls w' @ map (\<lambda>handler. (handler, v)) (dataHandlers cl')\<rparr>))"
  using assms by (simp add: on_data_def getObjectFromRaw_def Let_def split: option.splits)

text \<open>The framer with its local variables unfolded, for computing it on a given text.\<close>

lemma trimmedData_eval:
  "trimmedData raw =
     (if trim (if indexOf raw 0 > - 1 then substr raw 0 (indexOf raw 0) else raw) = []
      then missingSocketDataString
      else (if indexOf raw 0 > - 1 then substr raw 0 (indexOf raw 0) else raw))"
  by (simp add: trimmedData_def Let_def TERMINATING_CHARACTER_def)

section \<open>Teardown\<close>

lemma get_set_key: "get (set_key k v cl) k = v"
  by (simp add: get_def set_key_def)

lemma destroy_first:
  assumes "\<not> truthy (get cl (js ''destroyed''))"
  shows "destroy e (cl, w) =
         (case global_client e of
            None \<Rightarrow> (Inl ReferenceError, set_key (js ''destroyed'') (JBool True) cl, w)
          | Some sock \<Rightarrow>
              (Inr JUndefined, set_key (js ''destroyed'') (JBool True) cl, w\<lparr>closes := closes w @ [sock]\<rparr>))"
  using assms by (simp add: destroy_def)

lemma destroy_again:
  assumes "truthy (get cl (js ''destroyed''))"
  shows "destroy e (cl, w) = (Inr JUndefined, cl, w)"
  using assms by (simp add: destroy_def)

section \<open>The outbound path\<close>

lemma directSend_destroyed:
  assumes "truthy (get cl (js ''destroyed''))"
  shows "directSend e command (cl, w) = (Inr (JBool False), cl, w)"
  using assms by (simp add: directSend_def)

lemma directSend_live:
  assumes "\<not> truthy (get cl (js ''destroyed''))"
      and "getenv (process_env e) (js ''PATCH_HEADER'') JUndefined = Inr header"
      and "JSON_stringify (heap w) command = Inr (Some body)"
  shows "directSend e command (cl, w) =
         (Inr (JBool True), cl,
          w\<lparr>writes := writes w @ [(socket cl, header_text header @ replace body (header_text header) [])]\<rparr>)"
  using assms by (simp add: directSend_def)



lemma send_data_cases:
  "send_data h command d = Inl TypeError \<or> (\<exists>x h'. send_data h command d = Inr (x, h'))"
  by (cases d) (auto simp: send_data_def split: option.splits stored.splits)

lemma queued_cases: "queued h x = Inl TypeError \<or> (\<exists>xs. queued h x = Inr xs)"
  by (cases x)
     (auto simp: queued_def split: sum.splits jsval.splits option.splits stored.splits)

lemma send_destroyed:
  assumes "truthy (get cl (js ''destroyed''))"
  shows "writes (snd (snd (send e command d (cl, w)))) = writes w
       \<and> data (fst (snd (send e command d (cl, w)))) = data cl
       \<and> (fst (send e command d (cl, w)) = Inr JUndefined \<or> fst (send e command d (cl, w)) = Inl TypeError)"
proof -
  consider "send_data (heap w) command d = Inl TypeError"
    | x h' where "send_data (heap w) command d = Inr (x, h')" "\<not> tickMode cl"
    | x h' where "send_data (heap w) command d = Inr (x, h')" "tickMode cl" "queued h' x = Inl TypeError"
    | x h' xs where "send_data (heap w) command d = Inr (x, h')" "tickMode cl" "queued h' x = Inr xs"
    using send_data_cases [of "heap w" command d] queued_cases by metis
  then show ?thesis
  proof cases
    case 1
    then show ?thesis by (simp add: send_def)
  next
    case 2
    then show ?thesis using assms by (simp add: send_def directSend_destroyed)
  next
    case 3
    then show ?thesis by (simp add: send_def)
  next
    case 4
    then show ?thesis by (simp add: send_def)
  qed
qed

lemma tick_destroyed:
  assumes "truthy (get cl (js ''destroyed''))"
  shows "writes (snd (snd (tick e (cl, w)))) = writes w"
  using assms by (simp add: tick_def directSend_destroyed)

text \<open>Serialising the commands of the examples, and their header.\<close>

lemmas stringify_eval = JSON_stringify_def number_text_def quote_def quote_unit_def
  unicode_escape_def is_high_surrogate_def is_low_surrogate_def js_def

lemma getenv0: "getenv (process_env env0) (js ''PATCH_HEADER'') JUndefined = Inr (JStr (js ''HDR''))"
  by (simp add: getenv_def env0_def js_def)

lemma stringify_ping: \<open>JSON_stringify h ping_command = Inr (Some (js ''{"command":"ping"}''))\<close>
  by (simp add: ping_command_def stringify_eval)



lemma stringify_spoof: \<open>JSON_stringify h spoof_command = Inr (Some (js ''{"command":"HDRHDR"}''))\<close>
  by (simp add: spoof_command_def stringify_eval)







text \<open>
  Commands sent with one argument, none of them a batch, are queued as they are, and
  the heap stays as it is.
\<close>

lemma enqueued_plain:
  assumes "\<forall>a\<in>set args. snd a = JUndefined \<and> queued h (fst a) = Inr [fst a]"
  shows "enqueued h args = Inr (map fst args, h)"
  using assms
proof (induction args)
  case Nil
  then show ?case by simp
next
  case (Cons a args)
  obtain command d where a: "a = (command, d)" by (cases a) auto
  with Cons show ?case by (simp add: send_data_def)
qed

section \<open>The framer\<close>











section \<open>The packet counter under each operation\<close>

lemma counter_directSend: "packetCounter (fst (snd (directSend e command (cl, w)))) = packetCounter cl"
  by (simp add: directSend_def split: sum.splits option.splits)

lemma counter_directSend_case:
  "packetCounter (fst (snd (case directSend e x (cl, w) of
      (Inl err, st') \<Rightarrow> (Inl err, st') | (Inr r, st') \<Rightarrow> (Inr JUndefined, st')))) = packetCounter cl"
  using counter_directSend [of e x cl w]
  by (cases "directSend e x (cl, w)") (auto split: sum.splits)

lemma counter_send: "packetCounter (fst (snd (send e command d (cl, w)))) = packetCounter cl"
  by (simp add: send_def counter_directSend_case split: sum.splits prod.splits)

lemma counter_tick: "packetCounter (fst (snd (tick e (cl, w)))) = packetCounter cl"
proof -
  have "packetCounter (fst (snd (case directSend e x (cl, w) of
          (Inl err, st') \<Rightarrow> (Inl err, st')
        | (Inr r, cl', w') \<Rightarrow> (Inr JUndefined, cl'\<lparr>tickModeQueue := []\<rparr>, w')))) = packetCounter cl" for x
    using counter_directSend [of e x cl w]
    by (cases "directSend e x (cl, w)") (auto split: sum.splits)
  then show ?thesis
    by (simp add: tick_def)
qed

lemma counter_destroy: "packetCounter (fst (snd (destroy e (cl, w)))) = packetCounter cl"
  by (simp add: destroy_def set_key_def split: option.splits)

lemma counter_destroy_case:
  "packetCounter (fst (snd (case destroy e (cl, w) of
      (Inl err, st') \<Rightarrow> (Inl err, st') | (Inr r, st') \<Rightarrow> (Inr (JBool False), st')))) = packetCounter cl"
  using counter_destroy [of e cl w]
  by (cases "destroy e (cl, w)") (auto split: sum.splits)

lemma counter_validate:
  "packetCounter cl \<le> packetCounter (fst (snd (validateClientCommandIntegrity e d (cl, w))))"
proof (cases "search d (packetCounter cl) 0")
  case None
  have "packetCounter (fst (snd (case destroy e (cl, w) of
          (Inl err, st') \<Rightarrow> (Inl err, st') | (Inr r, st') \<Rightarrow> (Inr (JBool False), st')))) = packetCounter cl"
    using counter_destroy [of e cl w]
    by (cases "destroy e (cl, w)") (auto split: sum.splits)
  with None show ?thesis by (simp add: validateClientCommandIntegrity_def)
next
  case (Some k)
  then have "packetCounter cl \<le> k" by (rule search_ge)
  with Some show ?thesis by (simp add: validateClientCommandIntegrity_def)
qed

text \<open>The validator leaves the counter as it is or at one of the candidates.\<close>

lemma counter_after_validate:
  "packetCounter (fst (snd (validateClientCommandIntegrity e d (cl, w)))) = packetCounter cl
   \<or> (\<exists>j<INC_PACKET_SEARCHBOUND.
        packetCounter (fst (snd (validateClientCommandIntegrity e d (cl, w))))
          = js_add (packetCounter cl) (int j))"
proof (cases "search d (packetCounter cl) 0")
  case None
  then show ?thesis
    by (simp add: validate_reject counter_destroy_case)
next
  case (Some k)
  with search_candidate [OF Some] show ?thesis by (auto simp: validate_accept)
qed

lemma counter_on_data: "packetCounter cl \<le> packetCounter (fst (snd (on_data e raw (cl, w))))"
proof -
  obtain r cl' w' where v: "validateClientCommandIntegrity e (splitCommandAndHash (trimmedData raw)) (cl, w) = (r, cl', w')"
    by (cases "validateClientCommandIntegrity e (splitCommandAndHash (trimmedData raw)) (cl, w)") auto
  with counter_validate [of cl e "splitCommandAndHash (trimmedData raw)" w]
  have "packetCounter cl \<le> packetCounter cl'" by simp
  then show ?thesis
    using v js_add_ge [of 1 "packetCounter cl'"]
    by (auto simp: on_data_def getObjectFromRaw_def Let_def split: sum.splits option.splits)
qed

lemma counter_step: "packetCounter cl \<le> packetCounter (fst (snd (step e x (cl, w))))"
  by (cases x)
     (simp_all add: counter_on_data counter_send counter_directSend counter_tick counter_destroy
        batchSend_def set_key_def onData_def setTickMode_def split: sum.splits option.splits)

lemma counter_run: "packetCounter cl \<le> packetCounter (fst (run e xs (cl, w)))"
proof (induction xs arbitrary: cl w)
  case Nil
  then show ?case by simp
next
  case (Cons x xs)
  obtain r cl' w' where s: "step e x (cl, w) = (r, cl', w')"
    by (cases "step e x (cl, w)") auto
  with counter_step [of cl e x w] have "packetCounter cl \<le> packetCounter cl'" by simp
  also have "\<dots> \<le> packetCounter (fst (run e xs (cl', w')))" by (rule Cons.IH)
  finally show ?case using s by simp
qed

lemma counter_new_Client: "packetCounter (fst (snd (new_Client e sock uniqueId now w))) = 0"
  by (simp add: new_Client_def counter_send)

text \<open>
  The counter of a connection is a JavaScript number from the constructor on, whatever
  the operations.
\<close>

lemma number_validate:
  assumes "round53 (packetCounter cl) = packetCounter cl"
  shows "round53 (packetCounter (fst (snd (validateClientCommandIntegrity e d (cl, w)))))
       = packetCounter (fst (snd (validateClientCommandIntegrity e d (cl, w))))"
  using counter_after_validate [of e d cl w] assms by (auto simp: js_add_number)

lemma number_on_data:
  assumes "round53 (packetCounter cl) = packetCounter cl"
  shows "round53 (packetCounter (fst (snd (on_data e raw (cl, w)))))
       = packetCounter (fst (snd (on_data e raw (cl, w))))"
proof -
  obtain r cl' w' where v: "validateClientCommandIntegrity e (splitCommandAndHash (trimmedData raw)) (cl, w) = (r, cl', w')"
    by (cases "validateClientCommandIntegrity e (splitCommandAndHash (trimmedData raw)) (cl, w)") auto
  with number_validate [OF assms, of e "splitCommandAndHash (trimmedData raw)" w]
  have "round53 (packetCounter cl') = packetCounter cl'" by simp
  then show ?thesis
    using v by (auto simp: on_data_def getObjectFromRaw_def Let_def js_add_number split: sum.splits option.splits)
qed

lemma number_step:
  assumes "round53 (packetCounter cl) = packetCounter cl"
  shows "round53 (packetCounter (fst (snd (step e x (cl, w))))) = packetCounter (fst (snd (step e x (cl, w))))"
  using assms
  by (cases x)
     (simp_all add: number_on_data counter_send counter_directSend counter_tick counter_destroy
        batchSend_def set_key_def onData_def setTickMode_def split: sum.splits option.splits)

lemma number_run:
  assumes "round53 (packetCounter cl) = packetCounter cl"
  shows "round53 (packetCounter (fst (run e xs (cl, w)))) = packetCounter (fst (run e xs (cl, w)))"
  using assms
proof (induction xs arbitrary: cl w)
  case Nil
  then show ?case by simp
next
  case (Cons x xs)
  obtain r cl' w' where s: "step e x (cl, w) = (r, cl', w')"
    by (cases "step e x (cl, w)") auto
  with number_step [OF Cons.prems, of e x w] have "round53 (packetCounter cl') = packetCounter cl'" by simp
  then have "round53 (packetCounter (fst (run e xs (cl', w')))) = packetCounter (fst (run e xs (cl', w')))"
    by (rule Cons.IH)
  then show ?case using s by simp
qed

lemma number_from_new_Client:
  "round53 (packetCounter (fst (run e xs (snd (new_Client e sock uniqueId now w0)))))
     = packetCounter (fst (run e xs (snd (new_Client e sock uniqueId now w0))))"
proof -
  obtain r cl' w' where n: "new_Client e sock uniqueId now w0 = (r, cl', w')"
    by (cases "new_Client e sock uniqueId now w0") auto
  with counter_new_Client [of e sock uniqueId now w0] have "packetCounter cl' = 0" by simp
  then have "round53 (packetCounter cl') = packetCounter cl'" by (simp add: round53_exact)
  then show ?thesis using n number_run [of cl' e xs w'] by simp
qed

section \<open>Computing digests\<close>

text \<open>
  The rules by which a digest of a concrete message is computed: the wrap-around as a
  mask, the recursions on numerals step by step.
\<close>

lemma mod32_mask: "(x::nat) mod 4294967296 = x AND 4294967295"
proof -
  have "x mod 2 ^ 32 = take_bit 32 x" by (simp add: take_bit_eq_mod)
  also have "\<dots> = x AND mask 32" by (simp add: take_bit_eq_mask)
  finally show ?thesis by (simp add: mask_eq_exp_minus_1)
qed

lemma add32_eval: "add32 a b = (a + b) AND 4294967295"
  by (simp add: add32_def mod32_mask)

lemma not32_eval: "not32 a = 4294967295 - (a AND 4294967295)"
  by (simp add: not32_def mod32_mask)

lemma rotl_eval:
  "rotl (Suc 0) w = ((w * 2) AND 4294967295) + drop_bit 31 (w AND 4294967295)"
  "rotl 5 w = ((w * 32) AND 4294967295) + drop_bit 27 (w AND 4294967295)"
  "rotl 30 w = ((w * 1073741824) AND 4294967295) + drop_bit 2 (w AND 4294967295)"
  by (simp_all add: rotl_def mod32_mask drop_bit_eq_div)

lemma schedule_numeral:
  "schedule (numeral k) w = schedule (pred_numeral k) (rotl 1 (w ! 2 XOR w ! 7 XOR w ! 13 XOR w ! 15) # w)"
  by (simp add: numeral_eq_Suc)

lemma blocks_numeral:
  "blocks (numeral k) h ws = blocks (pred_numeral k) (compress h (take 16 ws)) (drop 16 ws)"
  by (simp add: numeral_eq_Suc)

lemma replicate_numeral: "replicate (numeral k) x = x # replicate (pred_numeral k) x"
  by (simp add: numeral_eq_Suc)

lemmas sha1_eval = sha1_hex_def sha1_def sha1_pad_def compress_def schedule_numeral blocks_numeral
  replicate_numeral rotl_eval add32_eval not32_eval sha1_f_def sha1_k_def hex32_def hex_digit_def

lemma toString_0: "toString 0 = js ''0''"
  by (simp add: toString_decimal decimal.simps js_def)

lemmas text_eval = js_def utf8_code_point_def is_high_surrogate_def is_low_surrogate_def
  toString_0 decimal_string_def decimal_numeral key_def

text \<open>The test vector of FIPS 180 for \<open>abc\<close>, and the digests of the examples.\<close>

lemma sha1_hex_abc: "sha1_hex (utf8 (js ''abc'')) = js ''a9993e364706816aba3e25717850c26c9cd0d89d''"
  by (simp add: sha1_eval text_eval)

lemma serverHash_ping_0: "serverHash ping 0 = js ''80bb47f66daa7fa8dfae597978c9e97f3265fb5d''"
  by (simp add: serverHash_def ping_def sha1_eval text_eval)

lemma serverHash_false_0: "serverHash (js ''false'') 0 = js ''981a36fbcb020c10f842398837b0e1a42c63a3d7''"
  by (simp add: serverHash_def sha1_eval text_eval)

lemma serverHash_cut_short_0: "serverHash cut_short 0 = js ''fa0f58bbd4fddd5484a4796b140c5c7b08c0b070''"
  by (simp add: serverHash_def cut_short_def sha1_eval text_eval)

text \<open>
  Digests of the specification: for a payload that is not ASCII and a sequence number
  of two digits, and for a sequence number that is no JavaScript number.
\<close>

lemma utf8_greeting:
  "utf8 greeting =
     [123, 34, 99, 111, 109, 109, 97, 110, 100, 34, 58, 34, 99, 97, 102, 195, 169, 32, 226, 130,
      172, 32, 240, 159, 152, 128, 34, 125]"
  by (simp add: greeting_def text_eval)




text \<open>The frames of the examples go through the framer as they are.\<close>

lemma frame_ping: \<open>trimmedData (js ''{"command":"ping"}80bb47f66daa7fa8dfae597978c9e97f3265fb5d'') = ping @ serverHash ping 0\<close>
  unfolding serverHash_ping_0
  by (simp add: trimmedData_eval js_def trim_def is_white_space_def substr_def ping_def)

lemma frame_false: \<open>trimmedData (js ''false981a36fbcb020c10f842398837b0e1a42c63a3d7'') = js ''false'' @ serverHash (js ''false'') 0\<close>
  unfolding serverHash_false_0
  by (simp add: trimmedData_eval js_def trim_def is_white_space_def substr_def)

lemma frame_cut_short: \<open>trimmedData (js ''{"command":fa0f58bbd4fddd5484a4796b140c5c7b08c0b070'') = cut_short @ serverHash cut_short 0\<close>
  unfolding serverHash_cut_short_0
  by (simp add: trimmedData_eval js_def trim_def is_white_space_def substr_def cut_short_def)

section \<open>The claims\<close>




text \<open>
  C2. The sequence counter and the count of received packets are the one field
  \<open>packetCounter\<close>. When the validator has accepted a packet at candidate \<open>s\<close>, the data
  event leaves the counter at \<open>s + 1\<close> (the sum of JavaScript, \<open>js_add s 1\<close>, which is \<open>s + 1\<close>
  as long as that is below \<open>2 ^ 53\<close>: lemma \<open>js_add_exact\<close>) and calls the handlers if the payload parses to
  anything but \<open>false\<close>; it leaves the counter at \<open>s\<close>, with no handler called, if
  parsing fails or yields \<open>false\<close>, the value by which \<open>getObjectFromRaw\<close> reports a bad
  packet.
\<close>

theorem C2_counter_after_accepted_packet:
  assumes "validateClientCommandIntegrity e (splitCommandAndHash (trimmedData raw)) (cl, w)
             = (Inr (JBool True), cl', w')"
      and "packetCounter cl' = s"
  shows "(\<forall>v. JSON_parse e (actualData (splitCommandAndHash (trimmedData raw))) = Some v \<and> v \<noteq> JBool False \<longrightarrow>
            on_data e raw (cl, w)
              = (Inr JUndefined, cl\<lparr>packetCounter := js_add s 1\<rparr>,
                 w\<lparr>calls := calls w @ map (\<lambda>handler. (handler, v)) (dataHandlers cl)\<rparr>))
       \<and> (JSON_parse e (actualData (splitCommandAndHash (trimmedData raw))) = None
           \<or> JSON_parse e (actualData (splitCommandAndHash (trimmedData raw))) = Some (JBool False) \<longrightarrow>
            on_data e raw (cl, w) = (Inr JUndefined, cl\<lparr>packetCounter := s\<rparr>, w))"
proof -
  from validate_True [OF assms(1)] assms(2)
  have w': "w' = w" and cl': "cl' = cl\<lparr>packetCounter := s\<rparr>" by auto
  show ?thesis
    using on_data_validated [OF assms(1)] by (auto simp: w' cl')
qed

theorem C2_witness:
  \<open>on_data env0 (js ''{"command":"ping"}80bb47f66daa7fa8dfae597978c9e97f3265fb5d'') (client0, world0)
     = (Inr JUndefined, client0\<lparr>packetCounter := 1\<rparr>,
        world0\<lparr>calls := [(7, ping_command)]\<rparr>)
   \<and> on_data env0 (js ''{"command":fa0f58bbd4fddd5484a4796b140c5c7b08c0b070'') (client0, world0)
     = (Inr JUndefined, client0, world0)\<close>
proof -
  have c: "packetCounter client0 = 0" by (simp add: client0_def)
  have v1: \<open>validateClientCommandIntegrity env0
        (splitCommandAndHash (trimmedData (js ''{"command":"ping"}80bb47f66daa7fa8dfae597978c9e97f3265fb5d'')))
        (client0, world0) = (Inr (JBool True), client0, world0)\<close>
    unfolding frame_ping by (rule validate_first_candidate) (simp_all add: length_serverHash c)
  have p1: \<open>JSON_parse env0 (actualData (splitCommandAndHash
        (trimmedData (js ''{"command":"ping"}80bb47f66daa7fa8dfae597978c9e97f3265fb5d''))))
      = Some (ping_command)\<close>
    unfolding frame_ping payload_of_frame
    by (simp add: env0_def parse_examples_def ping_def)
  have v2: \<open>validateClientCommandIntegrity env0
        (splitCommandAndHash (trimmedData (js ''{"command":fa0f58bbd4fddd5484a4796b140c5c7b08c0b070'')))
        (client0, world0) = (Inr (JBool True), client0, world0)\<close>
    unfolding frame_cut_short by (rule validate_first_candidate) (simp_all add: length_serverHash c)
  have p2: \<open>JSON_parse env0 (actualData (splitCommandAndHash
        (trimmedData (js ''{"command":fa0f58bbd4fddd5484a4796b140c5c7b08c0b070''))))
      = None\<close>
    unfolding frame_cut_short payload_of_frame
    by (simp add: env0_def parse_examples_def cut_short_def js_def)
  from C2_counter_after_accepted_packet [OF v1 c] p1
  have "on_data env0 (js ''{\"command\":\"ping\"}80bb47f66daa7fa8dfae597978c9e97f3265fb5d'') (client0, world0)
     = (Inr JUndefined, client0\<lparr>packetCounter := 1\<rparr>,
        world0\<lparr>calls := calls world0 @ map (\<lambda>handler. (handler, ping_command)) (dataHandlers client0)\<rparr>)"
    by (simp add: ping_command_def js_add_0_1)
  moreover from C2_counter_after_accepted_packet [OF v2 c] p2
  have \<open>on_data env0 (js ''{"command":fa0f58bbd4fddd5484a4796b140c5c7b08c0b070'') (client0, world0)
     = (Inr JUndefined, client0\<lparr>packetCounter := 0\<rparr>, world0)\<close>
    by simp
  ultimately show ?thesis by (simp add: client0_def world0_def)
qed

text \<open>
  The claim as it was stated, with \<open>s + 1\<close> for every payload that parses, fails for the
  payload \<open>false\<close>: it parses, the digest matches candidate 0, and the counter stays 0.
\<close>

theorem C2_counterexample:
  \<open>JSON_parse env0 (js ''false'') = Some (JBool False)
   \<and> validateClientCommandIntegrity env0
        (splitCommandAndHash (trimmedData (js ''false981a36fbcb020c10f842398837b0e1a42c63a3d7'')))
        (client0, world0)
      = (Inr (JBool True), client0, world0)
   \<and> packetCounter client0 = 0
   \<and> on_data env0 (js ''false981a36fbcb020c10f842398837b0e1a42c63a3d7'') (client0, world0)
      = (Inr JUndefined, client0, world0)
   \<and> packetCounter (fst (snd (on_data env0 (js ''false981a36fbcb020c10f842398837b0e1a42c63a3d7'')
        (client0, world0)))) \<noteq> 0 + 1\<close>
proof -
  have p: "JSON_parse env0 (js ''false'') = Some (JBool False)"
    by (simp add: env0_def parse_examples_def js_def)
  have c: "packetCounter client0 = 0" by (simp add: client0_def)
  have v: "validateClientCommandIntegrity env0
        (splitCommandAndHash (js ''false'' @ serverHash (js ''false'') 0)) (client0, world0)
      = (Inr (JBool True), client0, world0)"
    by (rule validate_first_candidate) (simp_all add: length_serverHash c)
  have d: "actualData (splitCommandAndHash (js ''false'' @ serverHash (js ''false'') 0)) = js ''false''"
    by (simp add: split_frame length_serverHash)
  have v': "validateClientCommandIntegrity env0
        (splitCommandAndHash (trimmedData (js ''false981a36fbcb020c10f842398837b0e1a42c63a3d7'')))
        (client0, world0)
      = (Inr (JBool True), client0, world0)"
    using v by (simp only: frame_false)
  show ?thesis
    using p c v' on_data_validated [OF v'] by (simp add: frame_false d)
qed

text \<open>
  Frames built with a sequence number beyond the window of a counter \<open>c\<close> with
  \<open>- (2 ^ 53) < c\<close> and \<open>c + 100 \<le> 2 ^ 53\<close>: when no candidate of the window has the digest of that number, the
  validator does not accept them; it calls \<open>destroy\<close>.
\<close>

lemma frame_beyond_window:
  assumes "packetCounter cl = c" and "- (2 ^ 53) < c" and "c + 100 \<le> 2 ^ 53" and "c + 100 \<le> s"
      and "\<forall>j. c \<le> j \<and> j < c + 100 \<longrightarrow> keyed_digest p j \<noteq> keyed_digest p s"
      and "\<not> truthy (get cl (js ''destroyed''))"
  shows "validateClientCommandIntegrity e (splitCommandAndHash (p @ keyed_digest p s)) (cl, w) =
           (case global_client e of
              None \<Rightarrow> (Inl ReferenceError, set_key (js ''destroyed'') (JBool True) cl, w)
            | Some sock \<Rightarrow>
                (Inr (JBool False), set_key (js ''destroyed'') (JBool True) cl,
                 w\<lparr>closes := closes w @ [sock]\<rparr>))"
proof -
  have "search (splitCommandAndHash (p @ keyed_digest p s)) (packetCounter cl) 0 = None"
  proof (rule search_None, intro allI impI)
    fix j assume "0 \<le> j \<and> j < INC_PACKET_SEARCHBOUND"
    then have j: "j < 100" by (simp add: INC_PACKET_SEARCHBOUND_def)
    then have "keyed_digest p (c + int j) \<noteq> keyed_digest p s" using assms(5) by simp
    then show "serverHash (actualData (splitCommandAndHash (p @ keyed_digest p s)))
          (js_add (packetCounter cl) (int j)) \<noteq> hash (splitCommandAndHash (p @ keyed_digest p s))"
      using candidate_exact(2) [OF assms(2,3) j, of p] assms(1)
      by (simp add: split_frame length_keyed_digest)
  qed
  then show ?thesis
    using assms(6) by (simp add: validate_reject destroy_first split: option.splits)
qed

text \<open>
  C3. A packet whose digest is that of none of the 100 candidates from the counter on
  (the frames above, built for \<open>s \<ge> c + 100\<close>; also a frame shorter than a digest) is
  not accepted, and the connection is marked destroyed. The transport is another matter: \<open>destroy\<close> closes the socket of
  the global \<open>client\<close>, not its own, and where no such global is bound it throws a
  \<open>ReferenceError\<close>, which leaves the validator before it can return \<open>false\<close>.
\<close>

theorem C3_unmatched_packet:
  assumes "\<forall>i<INC_PACKET_SEARCHBOUND.
             serverHash (actualData d) (js_add (packetCounter cl) (int i)) \<noteq> hash d"
      and "\<not> truthy (get cl (js ''destroyed''))"
  shows "validateClientCommandIntegrity e d (cl, w) =
           (case global_client e of
              None \<Rightarrow> (Inl ReferenceError, set_key (js ''destroyed'') (JBool True) cl, w)
            | Some sock \<Rightarrow>
                (Inr (JBool False), set_key (js ''destroyed'') (JBool True) cl,
                 w\<lparr>closes := closes w @ [sock]\<rparr>))"
proof -
  have "search d (packetCounter cl) 0 = None"
    using assms(1) by (intro search_None) simp
  then show ?thesis
    using assms(2) by (simp add: validate_reject destroy_first split: option.splits)
qed

theorem C3_witness:
  "length (hash (splitCommandAndHash (js ''ping''))) = 4
   \<and> \<not> truthy (get client0 (js ''destroyed''))
   \<and> validateClientCommandIntegrity env0 (splitCommandAndHash (js ''ping'')) (client0, world0)
       = (Inl ReferenceError, destroyed0, world0)
   \<and> closes world0 = []"
proof -
  have h: "length (hash (splitCommandAndHash (js ''ping''))) = 4"
    by (simp add: splitCommandAndHash_def slice_def slice_index_def js_def)
  have m: "\<forall>i<INC_PACKET_SEARCHBOUND.
      serverHash (actualData (splitCommandAndHash (js ''ping''))) (js_add (packetCounter client0) (int i))
      \<noteq> hash (splitCommandAndHash (js ''ping''))"
  proof (intro allI impI)
    fix i
    have "length (serverHash (actualData (splitCommandAndHash (js ''ping'')))
        (js_add (packetCounter client0) (int i))) = 40"
      by (rule length_serverHash)
    with h show "serverHash (actualData (splitCommandAndHash (js ''ping'')))
        (js_add (packetCounter client0) (int i))
      \<noteq> hash (splitCommandAndHash (js ''ping''))"
      by auto
  qed
  have n: "\<not> truthy (get client0 (js ''destroyed''))"
    by (simp add: get_def client0_def)
  have g: "global_client env0 = None" by (simp add: env0_def)
  from C3_unmatched_packet [OF m n, of env0 world0]
  have "validateClientCommandIntegrity env0 (splitCommandAndHash (js ''ping'')) (client0, world0)
       = (Inl ReferenceError, destroyed0, world0)"
    by (simp add: g destroyed0_def)
  with h n show ?thesis by (simp add: world0_def)
qed

text \<open>
  C4. \<open>destroy\<close> called twice on a connection that is not yet destroyed: the first call
  sets \<open>destroyed\<close> and then closes the socket of the global \<open>client\<close>, or throws a
  \<open>ReferenceError\<close> where none is bound; the second call does nothing, and \<open>destroyed\<close>
  stays \<open>true\<close>. The connection's own socket is closed only if the global \<open>client\<close>
  happens to be this connection.
\<close>

theorem C4_destroy_twice:
  assumes "\<not> truthy (get cl (js ''destroyed''))"
  shows "destroy e (cl, w) =
           (case global_client e of
              None \<Rightarrow> (Inl ReferenceError, set_key (js ''destroyed'') (JBool True) cl, w)
            | Some sock \<Rightarrow>
                (Inr JUndefined, set_key (js ''destroyed'') (JBool True) cl,
                 w\<lparr>closes := closes w @ [sock]\<rparr>))
       \<and> destroy e (snd (destroy e (cl, w))) = (Inr JUndefined, snd (destroy e (cl, w)))
       \<and> get (fst (snd (destroy e (cl, w)))) (js ''destroyed'') = JBool True"
  using assms
  by (auto simp: destroy_first destroy_again get_set_key split: option.splits)

theorem C4_witness:
  "\<not> truthy (get client0 (js ''destroyed''))
   \<and> destroy env0 (client0, world0) = (Inl ReferenceError, destroyed0, world0)
   \<and> destroy env0 (destroyed0, world0) = (Inr JUndefined, destroyed0, world0)
   \<and> closes world0 = []
   \<and> get destroyed0 (js ''destroyed'') = JBool True"
proof -
  have n: "\<not> truthy (get client0 (js ''destroyed''))"
    by (simp add: get_def client0_def)
  have g: "global_client env0 = None" by (simp add: env0_def)
  note t = C4_destroy_twice [OF n, of env0 world0]
  have first: "destroy env0 (client0, world0) = (Inl ReferenceError, destroyed0, world0)"
    using t [THEN conjunct1] by (simp add: g destroyed0_def)
  have "destroy env0 (destroyed0, world0) = (Inr JUndefined, destroyed0, world0)"
    using t [THEN conjunct2, THEN conjunct1] unfolding first by simp
  moreover have "get destroyed0 (js ''destroyed'') = JBool True"
    using t [THEN conjunct2, THEN conjunct2] unfolding first by simp
  ultimately have "destroy env0 (destroyed0, world0) = (Inr JUndefined, destroyed0, world0)"
    and "get destroyed0 (js ''destroyed'') = JBool True"
    by simp_all
  with n first show ?thesis by (simp add: world0_def)
qed

text \<open>
  C5. On a connection whose \<open>destroyed\<close> is set, whatever the arguments and whether tick
  mode is on or off: \<open>directSend\<close> returns \<open>false\<close> and writes nothing; \<open>send\<close> writes
  nothing either, and neither does the \<open>tick\<close> that follows it; what \<open>send\<close> returns is
  \<open>undefined\<close> (unless its argument makes it throw a \<open>TypeError\<close>), never \<open>false\<close>.
\<close>

theorem C5_send_after_destroy:
  assumes "truthy (get cl (js ''destroyed''))"
  shows "directSend e command (cl, w) = (Inr (JBool False), cl, w)
       \<and> writes (snd (snd (send e command d (cl, w)))) = writes w
       \<and> (fst (send e command d (cl, w)) = Inr JUndefined \<or> fst (send e command d (cl, w)) = Inl TypeError)
       \<and> writes (snd (snd (tick e (snd (send e command d (cl, w)))))) = writes w"
proof -
  note sd = send_destroyed [OF assms, of e command d w]
  have "data (fst (snd (send e command d (cl, w)))) = data cl"
    using sd by blast
  then have "truthy (get (fst (snd (send e command d (cl, w)))) (js ''destroyed''))"
    using assms by (simp add: get_def)
  then have "writes (snd (snd (tick e (fst (snd (send e command d (cl, w))), snd (snd (send e command d (cl, w)))))))
      = writes (snd (snd (send e command d (cl, w))))"
    by (rule tick_destroyed)
  then have "writes (snd (snd (tick e (snd (send e command d (cl, w)))))) = writes w"
    using sd by simp
  with sd directSend_destroyed [OF assms] show ?thesis by blast
qed

theorem C5_witness:
  "truthy (get destroyed0 (js ''destroyed''))
   \<and> directSend env0 ping_command (destroyed0, world0) = (Inr (JBool False), destroyed0, world0)
   \<and> writes (snd (snd (send env0 ping_command JUndefined (destroyed0, world0)))) = []
   \<and> writes (snd (snd (send env0 ping_command JUndefined (setTickMode True destroyed0, world0)))) = []"
proof -
  have t: "truthy (get destroyed0 (js ''destroyed''))"
    by (simp add: destroyed0_def get_set_key)
  have t': "truthy (get (setTickMode True destroyed0) (js ''destroyed''))"
    by (simp add: destroyed0_def get_def set_key_def setTickMode_def)
  from C5_send_after_destroy [OF t, of env0 ping_command world0 JUndefined]
       C5_send_after_destroy [OF t', of env0 ping_command world0 JUndefined]
  show ?thesis using t by (simp add: world0_def)
qed

text \<open>
  The claim as it was stated has \<open>send\<close> return failure: \<open>send\<close> has no \<open>return\<close>, and on
  the destroyed connection it returns \<open>undefined\<close>, as it does on the live one.
\<close>

theorem C5_counterexample:
  "truthy (get destroyed0 (js ''destroyed''))
   \<and> fst (send env0 ping_command JUndefined (destroyed0, world0)) = Inr JUndefined
   \<and> fst (send env0 ping_command JUndefined (destroyed0, world0)) \<noteq> Inr (JBool False)
   \<and> fst (send env0 ping_command JUndefined (client0, world0)) = Inr JUndefined"
proof -
  have t: "truthy (get destroyed0 (js ''destroyed''))"
    by (simp add: destroyed0_def get_set_key)
  have n: "\<not> truthy (get client0 (js ''destroyed''))"
    by (simp add: get_def client0_def)
  have 1: "fst (send env0 ping_command JUndefined (destroyed0, world0)) = Inr JUndefined"
    using t by (simp add: send_def send_data_def directSend_destroyed destroyed0_def set_key_def client0_def)
  have 2: "fst (send env0 ping_command JUndefined (client0, world0)) = Inr JUndefined"
    using directSend_live [OF n getenv0 stringify_ping, of world0]
    by (simp add: send_def send_data_def client0_def)
  from t 1 2 show ?thesis by simp
qed






text \<open>
  C7. The frame that \<open>directSend\<close> writes for the command \<open>{"command":"HDRHDR"}\<close> under
  the header \<open>HDR\<close>: \<open>replace\<close> with a string pattern removes the first occurrence of the
  header only, and the second is still in the body.
\<close>

theorem C7_header_left_in_body:
  \<open>directSend env0 spoof_command (client0, world0)
     = (Inr (JBool True), client0, world0\<lparr>writes := [(1, js ''HDR{"command":"HDR"}'')]\<rparr>)\<close>
proof -
  have n: "\<not> truthy (get client0 (js ''destroyed''))"
    by (simp add: get_def client0_def)
  have \<open>header_text (JStr (js ''HDR'')) @ replace (js ''{"command":"HDRHDR"}'') (header_text (JStr (js ''HDR''))) []
      = js ''HDR{"command":"HDR"}''\<close>
    by (simp add: js_def)
  with directSend_live [OF n getenv0 stringify_spoof, of world0] show ?thesis
    by (simp add: world0_def client0_def)
qed

text \<open>In general the frame is the header and the body less the first occurrence of the header.\<close>

lemma directSend_frame:
  assumes "\<not> truthy (get cl (js ''destroyed''))"
      and "process_env e (js ''PATCH_HEADER'') = Some h" and "h \<noteq> []"
      and "JSON_stringify (heap w) command = Inr (Some body)"
  shows "directSend e command (cl, w) = (Inr (JBool True), cl, w\<lparr>writes := writes w @ [(socket cl, h @ replace body h [])]\<rparr>)"
proof -
  have "getenv (process_env e) (js ''PATCH_HEADER'') JUndefined = Inr (JStr h)"
    using assms(2,3) by (simp add: getenv_def)
  from directSend_live [OF assms(1) this assms(4)] show ?thesis by simp
qed

text \<open>
  C8. A packet whose digest validates and whose payload is not parseable JSON is
  dropped: the data event returns normally, no handler is called, nothing is written or
  closed, the store (and so \<open>destroyed\<close>) is as before; only the counter is where the
  validator put it.
\<close>

theorem C8_unparseable_payload_dropped:
  assumes "validateClientCommandIntegrity e (splitCommandAndHash (trimmedData raw)) (cl, w)
             = (Inr (JBool True), cl', w')"
      and "JSON_parse e (actualData (splitCommandAndHash (trimmedData raw))) = None"
  shows "on_data e raw (cl, w) = (Inr JUndefined, cl\<lparr>packetCounter := packetCounter cl'\<rparr>, w)"
proof -
  from validate_True [OF assms(1)]
  have "w' = w" and "cl' = cl\<lparr>packetCounter := packetCounter cl'\<rparr>" by auto
  then show ?thesis
    using on_data_validated [OF assms(1)] assms(2) by simp
qed

theorem C8_witness:
  \<open>on_data env0 (js ''{"command":fa0f58bbd4fddd5484a4796b140c5c7b08c0b070'') (client0, world0)
     = (Inr JUndefined, client0, world0)\<close>
proof -
  have c: "packetCounter client0 = 0" by (simp add: client0_def)
  have v: \<open>validateClientCommandIntegrity env0
        (splitCommandAndHash (trimmedData (js ''{"command":fa0f58bbd4fddd5484a4796b140c5c7b08c0b070'')))
        (client0, world0) = (Inr (JBool True), client0, world0)\<close>
    unfolding frame_cut_short by (rule validate_first_candidate) (simp_all add: length_serverHash c)
  have p: \<open>JSON_parse env0 (actualData (splitCommandAndHash
        (trimmedData (js ''{"command":fa0f58bbd4fddd5484a4796b140c5c7b08c0b070''))))
      = None\<close>
    unfolding frame_cut_short payload_of_frame
    by (simp add: env0_def parse_examples_def cut_short_def js_def)
  from C8_unparseable_payload_dropped [OF v p] show ?thesis by (simp add: client0_def)
qed



text \<open>
  C10. The packet counter is 0 when the constructor is done; no operation of the
  connection (a data event, whether the packet is accepted, dropped or rejected;
  any method of the class), whether it returns or throws, leaves it smaller than it
  found it; so it never decreases over a run of operations, and stays non-negative from the
  constructor on.
\<close>

theorem C10_counter_never_decreases:
  "packetCounter (fst (snd (new_Client e sock uniqueId now w0))) = 0
   \<and> packetCounter cl \<le> packetCounter (fst (snd (step e x (cl, w))))
   \<and> packetCounter cl \<le> packetCounter (fst (run e xs (cl, w)))
   \<and> 0 \<le> packetCounter (fst (run e xs (snd (new_Client e sock uniqueId now w0))))"
proof -
  obtain r cl' w' where n: "new_Client e sock uniqueId now w0 = (r, cl', w')"
    by (cases "new_Client e sock uniqueId now w0") auto
  with counter_new_Client [of e sock uniqueId now w0] have "packetCounter cl' = 0" by simp
  with counter_run [of cl' e xs w'] n
  have "0 \<le> packetCounter (fst (run e xs (snd (new_Client e sock uniqueId now w0))))" by simp
  then show ?thesis
    by (simp add: counter_new_Client counter_step counter_run)
qed

end
